theory Spec2Isabelle
  imports Main "HOL-Library.Word" "HOL-Library.Multiset" "HOL-Library.Sublist"
begin

unbundle bit_operations_syntax

section \<open>CamUsageWin: the consent-store reader and the list view\<close>

text \<open>
  A shallow embedding of \<^verbatim>\<open>CamUsageWin.cpp\<close>: the string helpers, the timestamp
  formatter, the registry walk of \<^verbatim>\<open>LoadConsentStore\<close> and the row filter of
  \<^verbatim>\<open>ListView_Populate\<close>. The Windows registry, the two time conversions of the
  operating system and \<^verbatim>\<open>std::sort\<close> are not part of the program: the registry is data
  handed to the model, the conversions are parameters, and \<^verbatim>\<open>std::sort\<close> is the set of
  results its contract in the C++ standard permits. One implementation of each is
  modelled as well, to run the program on: \<^verbatim>\<open>std::sort\<close> of GNU libstdc++, and the
  time conversions for a viewer whose zone is UTC.
\<close>

subsection \<open>Characters and strings\<close>

text \<open>
  The program is built with \<^verbatim>\<open>UNICODE\<close>: \<^verbatim>\<open>wchar_t\<close> is a 16-bit code unit and
  \<^verbatim>\<open>std::wstring\<close> a sequence of them. \<open>L ''abc''\<close> is the wide literal \<^verbatim>\<open>L"abc"\<close>.
\<close>

type_synonym wchar_t = "16 word"
type_synonym wstring = "wchar_t list"
type_synonym ULONGLONG = "64 word"
type_synonym DWORD = "32 word"
type_synonym WORD = "16 word"

definition L :: "string \<Rightarrow> wstring" where
  "L s = map (\<lambda>c. of_nat (of_char c)) s"

definition HASH :: wchar_t where \<comment> \<open>\<^verbatim>\<open>L'#'\<close>\<close>
  "HASH = 0x23"

definition BACKSLASH :: wchar_t where \<comment> \<open>\<^verbatim>\<open>L'\\'\<close>\<close>
  "BACKSLASH = 0x5C"

definition SLASH :: wchar_t where \<comment> \<open>\<^verbatim>\<open>L'/'\<close>\<close>
  "SLASH = 0x2F"

subsection \<open>Data model\<close>

record CamRow =
  kind :: wstring         \<comment> \<open>"Packaged" | "Desktop"\<close>
  app :: wstring          \<comment> \<open>App key or friendly name\<close>
  exe :: wstring          \<comment> \<open>Full path for Desktop (NonPackaged) apps\<close>
  activeNow :: bool
  startFt :: ULONGLONG    \<comment> \<open>FILETIME (100ns since 1601), UTC\<close>
  stopFt :: ULONGLONG     \<comment> \<open>FILETIME (0 => still active)\<close>

subsection \<open>Helpers\<close>

text \<open>\<^verbatim>\<open>std::replace\<close> over a copy of the string.\<close>

definition ReplaceAll :: "wstring \<Rightarrow> wchar_t \<Rightarrow> wchar_t \<Rightarrow> wstring" where
  "ReplaceAll s from to = map (\<lambda>c. if c = from then to else c) s"

text \<open>
  \<^verbatim>\<open>path.find_last_of(chars)\<close>: the largest position holding one of \<open>chars\<close>,
  \<open>None\<close> for \<^verbatim>\<open>npos\<close>.
\<close>

fun find_last_of :: "wstring \<Rightarrow> wstring \<Rightarrow> nat option" where
  "find_last_of [] chars = None"
| "find_last_of (c # s) chars =
     (case find_last_of s chars of
        Some pos \<Rightarrow> Some (Suc pos)
      | None \<Rightarrow> if c \<in> set chars then Some 0 else None)"

text \<open>\<^verbatim>\<open>path.substr(pos)\<close> for \<open>pos \<le> length path\<close>, the only way the program calls it.\<close>

definition substr :: "wstring \<Rightarrow> nat \<Rightarrow> wstring" where
  "substr s pos = drop pos s"

definition LeafName :: "wstring \<Rightarrow> wstring" where
  "LeafName path =
     (case find_last_of path [BACKSLASH, SLASH] of
        None \<Rightarrow> path
      | Some pos \<Rightarrow> substr path (pos + 1))"

subsection \<open>The registry as the program sees it\<close>

text \<open>
  A key that was opened offers two things to the program: the values
  \<^verbatim>\<open>RegGetValueW\<close> can read as a QWORD (by name; every other name, and every value of
  another type, fails), and the outcomes of \<^verbatim>\<open>RegEnumKeyExW\<close> at the indices
  \<open>0, 1, \<dots>\<close> below the number of subkeys; at the first index past them the call
  answers \<^verbatim>\<open>ERROR_NO_MORE_ITEMS\<close>. An outcome is an error code other than that, or a
  subkey name together with what \<^verbatim>\<open>RegOpenKeyExW\<close> on that subkey gives: the opened
  key, or \<open>None\<close> when the open fails. A name is the text the call leaves in the
  buffer, up to its terminator.
\<close>

datatype reg_key =
  RegKey (qwords: "(wstring \<times> ULONGLONG) list") (subkeys: "enum_entry list")
and enum_entry =
  EnumError
| EnumName wstring "reg_key option"

definition RegGetValueW_QWORD :: "reg_key \<Rightarrow> wstring \<Rightarrow> ULONGLONG option" where
  "RegGetValueW_QWORD hKey valueName = map_of (qwords hKey) valueName"

text \<open>
  \<^verbatim>\<open>RegGetQword(hKey, valueName, out)\<close>: the flag returned and the content of
  \<open>out\<close> afterwards, which is written on success only.
\<close>

definition RegGetQword :: "reg_key \<Rightarrow> wstring \<Rightarrow> ULONGLONG \<Rightarrow> bool \<times> ULONGLONG" where
  "RegGetQword hKey valueName out =
     (case RegGetValueW_QWORD hKey valueName of
        Some val \<Rightarrow> (True, val)
      | None \<Rightarrow> (False, out))"

text \<open>\<^verbatim>\<open>_wcsicmp(a, b) == 0\<close> in the C locale: equal after lowering \<open>A\<close> to \<open>Z\<close>.\<close>

definition towlower_C :: "wchar_t \<Rightarrow> wchar_t" where
  "towlower_C c = (if 0x41 \<le> c \<and> c \<le> 0x5A then c + 0x20 else c)"

definition wcsicmp_eq :: "wstring \<Rightarrow> wstring \<Rightarrow> bool" where
  "wcsicmp_eq a b = (map towlower_C a = map towlower_C b)"

subsection \<open>Building the rows\<close>

text \<open>The two timestamps of an opened key, each starting at 0.\<close>

definition read_start :: "reg_key \<Rightarrow> ULONGLONG" where
  "read_start hItem = snd (RegGetQword hItem (L ''LastUsedTimeStart'') 0)"

definition read_stop :: "reg_key \<Rightarrow> ULONGLONG" where
  "read_stop hItem = snd (RegGetQword hItem (L ''LastUsedTimeStop'') 0)"

text \<open>Lines 130 to 138: the row of a subkey \<open>n2\<close> of \<^verbatim>\<open>NonPackaged\<close>.\<close>

definition desktop_row :: "wstring \<Rightarrow> ULONGLONG \<Rightarrow> ULONGLONG \<Rightarrow> CamRow" where
  "desktop_row n2 start stop =
     (let raw = n2;
          exe = ReplaceAll raw HASH BACKSLASH
      in \<lparr> kind = L ''Desktop'', app = LeafName exe, exe = exe,
           activeNow = (start \<noteq> 0 \<and> stop = 0), startFt = start, stopFt = stop \<rparr>)"

text \<open>Lines 154 to 160: the row of any other subkey of the webcam key.\<close>

definition packaged_row :: "wstring \<Rightarrow> ULONGLONG \<Rightarrow> ULONGLONG \<Rightarrow> CamRow" where
  "packaged_row subkey start stop =
     \<lparr> kind = L ''Packaged'', app = subkey, exe = [],
       activeNow = (start \<noteq> 0 \<and> stop = 0), startFt = start, stopFt = stop \<rparr>"

text \<open>
  The inner loop over the subkeys of \<^verbatim>\<open>NonPackaged\<close>, appending to \<open>out\<close>: an
  enumeration error and a failed open go on to the next index. The list holds the
  outcomes at the indices from \<open>idx2\<close> on; the empty list is \<^verbatim>\<open>ERROR_NO_MORE_ITEMS\<close>.
\<close>

fun enum_desktop :: "enum_entry list \<Rightarrow> CamRow list \<Rightarrow> CamRow list" where
  "enum_desktop [] out = out"
| "enum_desktop (EnumError # rest) out = enum_desktop rest out"
| "enum_desktop (EnumName n2 None # rest) out = enum_desktop rest out"
| "enum_desktop (EnumName n2 (Some hItem) # rest) out =
     enum_desktop rest (out @ [desktop_row n2 (read_start hItem) (read_stop hItem)])"

text \<open>
  The outer loop over the subkeys of the webcam key. The program opens the nested
  collection under the literal name \<^verbatim>\<open>NonPackaged\<close>; the registry compares key names
  without case, so that is the key the enumeration reported.
\<close>

fun enum_base :: "enum_entry list \<Rightarrow> CamRow list \<Rightarrow> CamRow list" where
  "enum_base [] out = out"
| "enum_base (EnumError # rest) out = enum_base rest out"
| "enum_base (EnumName subkey opened # rest) out =
     (if wcsicmp_eq subkey (L ''NonPackaged'') then
        (case opened of
           Some hNp \<Rightarrow> enum_base rest (enum_desktop (subkeys hNp) out)
         | None \<Rightarrow> enum_base rest out)
      else
        (case opened of
           Some hChild \<Rightarrow> enum_base rest (out @ [packaged_row subkey (read_start hChild) (read_stop hChild)])
         | None \<Rightarrow> enum_base rest out))"

subsection \<open>Sorting\<close>

text \<open>The comparator passed to \<^verbatim>\<open>std::sort\<close>.\<close>

definition row_less :: "CamRow \<Rightarrow> CamRow \<Rightarrow> bool" where
  "row_less a b =
     (if activeNow a \<noteq> activeNow b then activeNow b < activeNow a
      else startFt b < startFt a)"

text \<open>
  \<^verbatim>\<open>std::sort(first, last, lt)\<close> is library code. The C++ standard gives it this
  contract and no more: the range afterwards holds the same elements, and no element
  compares less than one before it (\<open>lt (ys ! j) (ys ! i)\<close> is false for \<open>i < j\<close>).
  The order of equivalent elements is left open. \<open>std_sort_post lt xs ys\<close> says
  that \<open>ys\<close> is a result the contract permits for the input \<open>xs\<close>.
\<close>

definition std_sort_post :: "('a \<Rightarrow> 'a \<Rightarrow> bool) \<Rightarrow> 'a list \<Rightarrow> 'a list \<Rightarrow> bool" where
  "std_sort_post lt xs ys = (mset ys = mset xs \<and> sorted_wrt (\<lambda>a b. \<not> lt b a) ys)"

text \<open>
  \<^verbatim>\<open>LoadConsentStore(out)\<close> as a relation between the vector before the call, and
  the vector after it. \<open>hkcu_webcam\<close> is what \<^verbatim>\<open>RegOpenKeyExW\<close> gives for the
  webcam key under \<^verbatim>\<open>HKEY_CURRENT_USER\<close>: \<open>None\<close> when the open fails.
\<close>

definition LoadConsentStore :: "reg_key option \<Rightarrow> CamRow list \<Rightarrow> CamRow list \<Rightarrow> bool" where
  "LoadConsentStore hkcu_webcam out out' =
     (let cleared = [] in
      case hkcu_webcam of
        None \<Rightarrow> out' = cleared
      | Some hBase \<Rightarrow> std_sort_post row_less (enum_base (subkeys hBase) cleared) out')"

subsection \<open>\<^verbatim>\<open>std::sort\<close> in GNU libstdc++\<close>

text \<open>
  \<^verbatim>\<open>std::sort\<close> calls \<^verbatim>\<open>__introsort_loop\<close> and then \<^verbatim>\<open>__final_insertion_sort\<close>
  (\<^verbatim>\<open>bits/stl_algo.h\<close>). The vector is a list, an iterator a position in it, and
  \<open>first\<close> and \<open>last0\<close> bound the range as \<^verbatim>\<open>__first\<close> and \<^verbatim>\<open>__last\<close> do. The
  functions are named as in the library, without the underscores. \<open>None\<close> is a
  read outside the vector, or the branch that is not modelled: the heap sort that
  takes over when the depth limit is used up.
\<close>

definition iter_swap :: "'a list \<Rightarrow> nat \<Rightarrow> nat \<Rightarrow> 'a list" where
  "iter_swap xs i j = xs[i := xs ! j, j := xs ! i]"

text \<open>\<^verbatim>\<open>std::__lg\<close>: the position of the highest bit set.\<close>

fun std_lg :: "nat \<Rightarrow> nat" where
  "std_lg n = (if n < 2 then 0 else 1 + std_lg (n div 2))"

declare std_lg.simps [simp del]

text \<open>
  \<^verbatim>\<open>__move_median_to_first(result, a, b, c, comp)\<close> swaps the median of three
  elements to \<open>result\<close>.
\<close>

definition move_median_to_first ::
    "('a \<Rightarrow> 'a \<Rightarrow> bool) \<Rightarrow> 'a list \<Rightarrow> nat \<Rightarrow> nat \<Rightarrow> nat \<Rightarrow> nat \<Rightarrow> 'a list" where
  "move_median_to_first lt xs result a b c =
     (if lt (xs ! a) (xs ! b) then
        (if lt (xs ! b) (xs ! c) then iter_swap xs result b
         else if lt (xs ! a) (xs ! c) then iter_swap xs result c
         else iter_swap xs result a)
      else if lt (xs ! a) (xs ! c) then iter_swap xs result a
      else if lt (xs ! b) (xs ! c) then iter_swap xs result c
      else iter_swap xs result b)"

text \<open>
  The two inner loops of \<^verbatim>\<open>__unguarded_partition\<close>:
  \<^verbatim>\<open>while (comp(first, pivot)) ++first;\<close> and \<^verbatim>\<open>while (comp(pivot, last)) --last;\<close>.
  Neither checks a bound.
\<close>

function scan_up :: "('a \<Rightarrow> 'a \<Rightarrow> bool) \<Rightarrow> 'a list \<Rightarrow> nat \<Rightarrow> nat \<Rightarrow> nat option" where
  "scan_up lt xs first pivot =
     (if length xs \<le> first then None
      else if lt (xs ! first) (xs ! pivot) then scan_up lt xs (first + 1) pivot
      else Some first)"
  by pat_completeness auto
termination
  by (relation "measure (\<lambda>(lt, xs, first, pivot). length xs - first)") auto

declare scan_up.simps [simp del]

function scan_down :: "('a \<Rightarrow> 'a \<Rightarrow> bool) \<Rightarrow> 'a list \<Rightarrow> nat \<Rightarrow> nat \<Rightarrow> nat option" where
  "scan_down lt xs last0 pivot =
     (if length xs \<le> last0 then None
      else if lt (xs ! pivot) (xs ! last0)
        then (if last0 = 0 then None else scan_down lt xs (last0 - 1) pivot)
      else Some last0)"
  by pat_completeness auto
termination
  by (relation "measure (\<lambda>(lt, xs, last0, pivot). last0)") auto

declare scan_down.simps [simp del]

text \<open>
  \<^verbatim>\<open>__unguarded_partition(first, last, pivot, comp)\<close>: scan up, step \<open>last\<close> down
  and scan down, return \<open>first\<close> when the two have met, otherwise swap and go on.
  The result is the vector and the cut.
\<close>

function unguarded_partition ::
    "('a \<Rightarrow> 'a \<Rightarrow> bool) \<Rightarrow> 'a list \<Rightarrow> nat \<Rightarrow> nat \<Rightarrow> nat \<Rightarrow> ('a list \<times> nat) option" where
  "unguarded_partition lt xs first last0 pivot =
     (case scan_up lt xs first pivot of
        None \<Rightarrow> None
      | Some first' \<Rightarrow>
          (if last0 = 0 then None
           else case scan_down lt xs (last0 - 1) pivot of
                  None \<Rightarrow> None
                | Some last1 \<Rightarrow>
                    if \<not> first' < last1 then Some (xs, first')
                    else unguarded_partition lt (iter_swap xs first' last1) (first' + 1) last1
                           pivot))"
  by pat_completeness auto
termination
proof (relation "measure (\<lambda>(lt, xs, first, last0, pivot). last0)", goal_cases)
  case 1
  show ?case by simp
next
  case (2 lt xs first last0 pivot first' last1)
  have "scan_down lt xs l pivot = Some l' \<Longrightarrow> l' \<le> l" for l l'
  proof (induction l)
    case 0
    then show ?case by (simp add: scan_down.simps [of lt xs 0] split: if_splits)
  next
    case (Suc l)
    then show ?case by (auto simp: scan_down.simps [of lt xs "Suc l"] split: if_splits)
  qed
  with 2 show ?case by fastforce
qed

declare unguarded_partition.simps [simp del]

text \<open>
  \<^verbatim>\<open>__unguarded_partition_pivot\<close>: the median of the second, the middle and the
  last element goes to the front as the pivot, and the rest is partitioned by it.
\<close>

definition unguarded_partition_pivot ::
    "('a \<Rightarrow> 'a \<Rightarrow> bool) \<Rightarrow> 'a list \<Rightarrow> nat \<Rightarrow> nat \<Rightarrow> ('a list \<times> nat) option" where
  "unguarded_partition_pivot lt xs first last0 =
     (let mid = first + (last0 - first) div 2;
          xs' = move_median_to_first lt xs first (first + 1) mid (last0 - 1)
      in unguarded_partition lt xs' (first + 1) last0 first)"

text \<open>
  \<^verbatim>\<open>__introsort_loop\<close>: while the range has more than 16 elements, partition it,
  recurse into the upper part and go on with the lower one; each round uses up one
  unit of the depth limit.
\<close>

function introsort_loop ::
    "('a \<Rightarrow> 'a \<Rightarrow> bool) \<Rightarrow> 'a list \<Rightarrow> nat \<Rightarrow> nat \<Rightarrow> nat \<Rightarrow> 'a list option" where
  "introsort_loop lt xs first last0 depth_limit =
     (if 16 < last0 - first then
        (if depth_limit = 0 then None
         else case unguarded_partition_pivot lt xs first last0 of
                None \<Rightarrow> None
              | Some (xs', cut') \<Rightarrow>
                  (case introsort_loop lt xs' cut' last0 (depth_limit - 1) of
                     None \<Rightarrow> None
                   | Some xs'' \<Rightarrow> introsort_loop lt xs'' first cut' (depth_limit - 1)))
      else Some xs)"
  by pat_completeness auto
termination
  by (relation "measure (\<lambda>(lt, xs, first, last0, depth_limit). depth_limit)") auto

declare introsort_loop.simps [simp del]

text \<open>
  \<^verbatim>\<open>__unguarded_linear_insert\<close> for the value \<open>val\<close> taken from position \<open>last0\<close>:
  elements greater than the value move up by one.
\<close>

function unguarded_linear_insert ::
    "('a \<Rightarrow> 'a \<Rightarrow> bool) \<Rightarrow> 'a \<Rightarrow> 'a list \<Rightarrow> nat \<Rightarrow> 'a list option" where
  "unguarded_linear_insert lt val xs last0 =
     (if last0 = 0 then None
      else let next = last0 - 1 in
        if lt val (xs ! next)
          then unguarded_linear_insert lt val (xs[last0 := xs ! next]) next
        else Some (xs[last0 := val]))"
  by pat_completeness auto
termination
  by (relation "measure (\<lambda>(lt, val, xs, last0). last0)") auto

declare unguarded_linear_insert.simps [simp del]

text \<open>
  The branch of \<^verbatim>\<open>__insertion_sort\<close> for an element less than the first one:
  \<^verbatim>\<open>move_backward(first, i, i + 1)\<close> and the element at \<open>first\<close>.
\<close>

definition move_backward_insert :: "'a list \<Rightarrow> nat \<Rightarrow> nat \<Rightarrow> 'a list" where
  "move_backward_insert xs first i =
     take first xs @ [xs ! i] @ take (i - first) (drop first xs) @ drop (i + 1) xs"

text \<open>
  The loop of \<^verbatim>\<open>__insertion_sort\<close> from position \<open>i\<close> on; it runs while
  \<open>i\<close> has not reached \<open>last0\<close>.
\<close>

function insertion_sort_from ::
    "('a \<Rightarrow> 'a \<Rightarrow> bool) \<Rightarrow> 'a list \<Rightarrow> nat \<Rightarrow> nat \<Rightarrow> nat \<Rightarrow> 'a list option" where
  "insertion_sort_from lt xs first i last0 =
     (if last0 \<le> i then Some xs
      else if lt (xs ! i) (xs ! first)
        then insertion_sort_from lt (move_backward_insert xs first i) first (i + 1) last0
      else case unguarded_linear_insert lt (xs ! i) xs i of
             None \<Rightarrow> None
           | Some xs' \<Rightarrow> insertion_sort_from lt xs' first (i + 1) last0)"
  by pat_completeness auto
termination
  by (relation "measure (\<lambda>(lt, xs, first, i, last0). last0 - i)") auto

declare insertion_sort_from.simps [simp del]

definition insertion_sort ::
    "('a \<Rightarrow> 'a \<Rightarrow> bool) \<Rightarrow> 'a list \<Rightarrow> nat \<Rightarrow> nat \<Rightarrow> 'a list option" where
  "insertion_sort lt xs first last0 =
     (if first = last0 then Some xs else insertion_sort_from lt xs first (first + 1) last0)"

function unguarded_insertion_sort ::
    "('a \<Rightarrow> 'a \<Rightarrow> bool) \<Rightarrow> 'a list \<Rightarrow> nat \<Rightarrow> nat \<Rightarrow> 'a list option" where
  "unguarded_insertion_sort lt xs i last0 =
     (if last0 \<le> i then Some xs
      else case unguarded_linear_insert lt (xs ! i) xs i of
             None \<Rightarrow> None
           | Some xs' \<Rightarrow> unguarded_insertion_sort lt xs' (i + 1) last0)"
  by pat_completeness auto
termination
  by (relation "measure (\<lambda>(lt, xs, i, last0). last0 - i)") auto

declare unguarded_insertion_sort.simps [simp del]

text \<open>\<^verbatim>\<open>__final_insertion_sort\<close>: the first 16 elements guarded, the others unguarded.\<close>

definition final_insertion_sort ::
    "('a \<Rightarrow> 'a \<Rightarrow> bool) \<Rightarrow> 'a list \<Rightarrow> nat \<Rightarrow> nat \<Rightarrow> 'a list option" where
  "final_insertion_sort lt xs first last0 =
     (if 16 < last0 - first then
        (case insertion_sort lt xs first (first + 16) of
           None \<Rightarrow> None
         | Some xs' \<Rightarrow> unguarded_insertion_sort lt xs' (first + 16) last0)
      else insertion_sort lt xs first last0)"

text \<open>\<^verbatim>\<open>std::sort(first, last, comp)\<close> over the whole vector.\<close>

definition libstdcxx_sort :: "('a \<Rightarrow> 'a \<Rightarrow> bool) \<Rightarrow> 'a list \<Rightarrow> 'a list option" where
  "libstdcxx_sort lt xs =
     (let first = 0; last0 = length xs in
      if first = last0 then Some xs
      else case introsort_loop lt xs first last0 (std_lg (last0 - first) * 2) of
             None \<Rightarrow> None
           | Some xs' \<Rightarrow> final_insertion_sort lt xs' first last0)"

subsection \<open>Formatting a timestamp\<close>

record FILETIME =
  dwLowDateTime :: DWORD
  dwHighDateTime :: DWORD

record SYSTEMTIME =
  wYear :: WORD
  wMonth :: WORD
  wDayOfWeek :: WORD
  wDay :: WORD
  wHour :: WORD
  wMinute :: WORD
  wSecond :: WORD
  wMilliseconds :: WORD

text \<open>
  The two conversions are calls into the operating system; either may fail, which
  is \<open>None\<close>. The second one depends on the time zone of the viewer.
\<close>

record time_api =
  FileTimeToSystemTime :: "FILETIME \<Rightarrow> SYSTEMTIME option"
  SystemTimeToTzSpecificLocalTime :: "SYSTEMTIME \<Rightarrow> SYSTEMTIME option"

text \<open>The digits of an unsigned number in base ten, as \<^verbatim>\<open>%u\<close> prints them.\<close>

fun dec_digits :: "nat \<Rightarrow> wstring" where
  "dec_digits n =
     (if n < 10 then [0x30 + of_nat n]
      else dec_digits (n div 10) @ [0x30 + of_nat (n mod 10)])"

declare dec_digits.simps [simp del]

text \<open>\<^verbatim>\<open>%0<width>u\<close>: zeros on the left up to the width, never a cut.\<close>

definition fmt_0u :: "nat \<Rightarrow> nat \<Rightarrow> wstring" where
  "fmt_0u width n = replicate (width - length (dec_digits n)) 0x30 @ dec_digits n"

text \<open>The text of \<^verbatim>\<open>L"%04u-%02u-%02u %02u:%02u:%02u"\<close> for the six fields printed.\<close>

definition fmt_datetime :: "SYSTEMTIME \<Rightarrow> wstring" where
  "fmt_datetime st =
     fmt_0u 4 (unat (wYear st)) @ L ''-'' @ fmt_0u 2 (unat (wMonth st)) @ L ''-''
     @ fmt_0u 2 (unat (wDay st)) @ L '' '' @ fmt_0u 2 (unat (wHour st)) @ L '':''
     @ fmt_0u 2 (unat (wMinute st)) @ L '':'' @ fmt_0u 2 (unat (wSecond st))"

text \<open>
  \<^verbatim>\<open>swprintf_s\<close> into a buffer of \<open>cch\<close> characters: the text and its terminator
  must fit, otherwise the invalid-parameter handler ends the process (\<open>None\<close>).
\<close>

definition swprintf_s :: "nat \<Rightarrow> wstring \<Rightarrow> wstring option" where
  "swprintf_s cch text = (if length text < cch then Some text else None)"

definition FtToLocalString :: "time_api \<Rightarrow> ULONGLONG \<Rightarrow> wstring option" where
  "FtToLocalString api ft =
     (if ft = 0 then Some []
      else
        let ftUtc = \<lparr> dwLowDateTime = ucast (ft AND 0xFFFFFFFF),
                      dwHighDateTime = ucast (drop_bit 32 ft) \<rparr>
        in case FileTimeToSystemTime api ftUtc of
             None \<Rightarrow> Some []
           | Some stUtc \<Rightarrow>
               (case SystemTimeToTzSpecificLocalTime api stUtc of
                  None \<Rightarrow> Some []
                | Some stLocal \<Rightarrow> swprintf_s 64 (fmt_datetime stLocal)))"

subsection \<open>Filling the list view\<close>

text \<open>
  The list view in report mode is the list of its items, an item the texts of its
  six columns (Kind, App, EXE, Active, Last Start, Last Stop). Inserting at
  \<open>iItem\<close> gives a new item with the text in column 0 and returns its index; an
  index past the end inserts at the end. The control is created without a sorting
  style and is taken to accept every insertion.
\<close>

type_synonym lv_item = "wstring list"

definition ListView_InsertItem :: "lv_item list \<Rightarrow> nat \<Rightarrow> wstring \<Rightarrow> lv_item list \<times> nat" where
  "ListView_InsertItem hList iItem pszText =
     (let idx = min iItem (length hList)
      in (take idx hList @ [[pszText, [], [], [], [], []]] @ drop idx hList, idx))"

definition ListView_SetItemText :: "lv_item list \<Rightarrow> nat \<Rightarrow> nat \<Rightarrow> wstring \<Rightarrow> lv_item list" where
  "ListView_SetItemText hList idx iSubItem pszText =
     (if idx < length hList then hList[idx := (hList ! idx)[iSubItem := pszText]]
      else hList)"

text \<open>
  The loop of \<^verbatim>\<open>ListView_Populate\<close> from a position of \<open>src\<close> on, with the
  counter \<open>i\<close> and the list view so far. \<open>None\<close> is a formatter that did not return.
\<close>

fun populate_loop :: "time_api \<Rightarrow> CamRow list \<Rightarrow> bool \<Rightarrow> nat \<Rightarrow> lv_item list \<Rightarrow> lv_item list option" where
  "populate_loop api [] currentOnly i hList = Some hList"
| "populate_loop api (r # rest) currentOnly i hList =
     (if currentOnly \<and> \<not> activeNow r then populate_loop api rest currentOnly i hList
      else
        let active = (if activeNow r then L ''Yes'' else L ''No'') in
        case FtToLocalString api (startFt r) of
          None \<Rightarrow> None
        | Some startS \<Rightarrow>
            (case FtToLocalString api (stopFt r) of
               None \<Rightarrow> None
             | Some stopS \<Rightarrow>
                 let (h0, idx) = ListView_InsertItem hList i (kind r);
                     h1 = ListView_SetItemText h0 idx 1 (app r);
                     h2 = ListView_SetItemText h1 idx 2 (exe r);
                     h3 = ListView_SetItemText h2 idx 3 active;
                     h4 = ListView_SetItemText h3 idx 4 startS;
                     h5 = ListView_SetItemText h4 idx 5 stopS
                 in populate_loop api rest currentOnly (i + 1) h5))"

definition ListView_DeleteAllItems :: "lv_item list \<Rightarrow> lv_item list" where
  "ListView_DeleteAllItems hList = []"

definition ListView_Populate :: "time_api \<Rightarrow> lv_item list \<Rightarrow> CamRow list \<Rightarrow> bool \<Rightarrow> lv_item list option" where
  "ListView_Populate api hList src currentOnly =
     populate_loop api src currentOnly 0 (ListView_DeleteAllItems hList)"

subsection \<open>The time conversions for a viewer in UTC\<close>

text \<open>
  \<^verbatim>\<open>FileTimeToSystemTime\<close> as Windows documents it: the 64-bit count of 100 ns
  ticks since 1 January 1601 (UTC) as a date and a time of day in the Gregorian
  calendar; a count with the top bit set is refused.
\<close>

definition filetime_ticks :: "FILETIME \<Rightarrow> nat" where
  "filetime_ticks ft = unat (dwHighDateTime ft) * 2 ^ 32 + unat (dwLowDateTime ft)"

text \<open>The lengths of the months, and the month and day of a day of the year counted from 0.\<close>

definition month_lengths :: "bool \<Rightarrow> nat list" where
  "month_lengths leap = [31, if leap then 29 else 28, 31, 30, 31, 30, 31, 31, 30, 31, 30, 31]"

fun month_and_day :: "nat list \<Rightarrow> nat \<Rightarrow> nat \<Rightarrow> nat \<times> nat" where
  "month_and_day [] month yday = (month, yday + 1)"
| "month_and_day (len # rest) month yday =
     (if yday < len then (month, yday + 1) else month_and_day rest (month + 1) (yday - len))"

text \<open>
  The date of a day counted from 1 January 1601, the first day of a cycle of 400
  years (146097 days), of a century (36524 days) and of four years (1461 days).
  The last year of four is a leap year unless it ends a century that does not end
  the cycle.
\<close>

definition civil_from_days :: "nat \<Rightarrow> nat \<times> nat \<times> nat" where
  "civil_from_days days =
     (let n400 = days div 146097; r400 = days mod 146097;
          n100 = min 3 (r400 div 36524); r100 = r400 - n100 * 36524;
          n4 = r100 div 1461; r4 = r100 mod 1461;
          n1 = min 3 (r4 div 365); yday = r4 - n1 * 365;
          year = 1601 + 400 * n400 + 100 * n100 + 4 * n4 + n1;
          leap = (n1 = 3 \<and> (n4 < 24 \<or> n100 = 3));
          (month, day) = month_and_day (month_lengths leap) 1 yday
      in (year, month, day))"

text \<open>1 January 1601 was a Monday; \<open>wDayOfWeek\<close> counts from Sunday.\<close>

definition FileTimeToSystemTime_utc :: "FILETIME \<Rightarrow> SYSTEMTIME option" where
  "FileTimeToSystemTime_utc ft =
     (if 0x80000000 \<le> dwHighDateTime ft then None
      else
        let ticks = filetime_ticks ft;
            secs = ticks div 10000000;
            days = secs div 86400;
            sod = secs mod 86400;
            (year, month, day) = civil_from_days days
        in Some \<lparr> wYear = of_nat year, wMonth = of_nat month,
                    wDayOfWeek = of_nat ((days + 1) mod 7), wDay = of_nat day,
                    wHour = of_nat (sod div 3600), wMinute = of_nat (sod div 60 mod 60),
                    wSecond = of_nat (sod mod 60),
                    wMilliseconds = of_nat (ticks div 10000 mod 1000) \<rparr>)"

text \<open>
  The time interface of a viewer whose time zone is UTC without daylight saving:
  the local time is the time converted.
\<close>

definition utc_api :: time_api where
  "utc_api = \<lparr> FileTimeToSystemTime = FileTimeToSystemTime_utc,
               SystemTimeToTzSpecificLocalTime = Some \<rparr>"

subsection \<open>Notions for stating the properties\<close>

text \<open>
  The definitions of this subsection are not code of the program; the properties
  are stated with them.
\<close>

text \<open>Two rows tie when the comparator cannot tell them apart.\<close>

definition same_keys :: "CamRow \<Rightarrow> CamRow \<Rightarrow> bool" where
  "same_keys a b = (activeNow a = activeNow b \<and> startFt a = startFt b)"

text \<open>
  Stability of a sort from \<open>xs\<close> to \<open>ys\<close>: the rows that tie with a given row
  come out in the order they went in.
\<close>

definition keeps_tie_order :: "CamRow list \<Rightarrow> CamRow list \<Rightarrow> bool" where
  "keeps_tie_order xs ys = (\<forall>a \<in> set xs. filter (same_keys a) ys = filter (same_keys a) xs)"

text \<open>
  A key for the comparator in the natural numbers: active rows below inactive ones,
  later starts below earlier ones.
\<close>

definition sort_rank :: "CamRow \<Rightarrow> nat" where
  "sort_rank r = (if activeNow r then 0 else 2 ^ 64) + (2 ^ 64 - 1 - unat (startFt r))"

text \<open>
  A stable sort by the comparator, to compare with: each row is inserted before the
  first row it is not to follow.
\<close>

definition stable_sort_rows :: "CamRow list \<Rightarrow> CamRow list" where
  "stable_sort_rows rows = sort_key sort_rank rows"

text \<open>What a timestamp shows as, and the item a row shows as.\<close>

definition ft_text :: "time_api \<Rightarrow> ULONGLONG \<Rightarrow> wstring" where
  "ft_text api ft =
     (if ft = 0 then []
      else case FileTimeToSystemTime api
                  \<lparr> dwLowDateTime = ucast (ft AND 0xFFFFFFFF),
                    dwHighDateTime = ucast (drop_bit 32 ft) \<rparr> of
             None \<Rightarrow> []
           | Some stUtc \<Rightarrow>
               (case SystemTimeToTzSpecificLocalTime api stUtc of
                  None \<Rightarrow> []
                | Some stLocal \<Rightarrow> fmt_datetime stLocal))"

definition row_item :: "time_api \<Rightarrow> CamRow \<Rightarrow> lv_item" where
  "row_item api r =
     [kind r, app r, exe r, if activeNow r then L ''Yes'' else L ''No'',
      ft_text api (startFt r), ft_text api (stopFt r)]"

text \<open>
  The value a column of digits denotes, for reading a formatted field back.
\<close>

definition dec_value :: "wstring \<Rightarrow> nat" where
  "dec_value ds = foldl (\<lambda>acc c. 10 * acc + unat (c - 0x30)) 0 ds"

text \<open>
  A text of the form \<^verbatim>\<open>YYYY-MM-DD HH:MM:SS\<close>: nineteen characters, digits but for
  the two hyphens, the space and the two colons in their places.
\<close>

definition is_digit :: "wchar_t \<Rightarrow> bool" where
  "is_digit c = (0x30 \<le> c \<and> c \<le> 0x39)"

definition is_date_time_text :: "wstring \<Rightarrow> bool" where
  "is_date_time_text s =
     (length s = 19 \<and>
      list_all is_digit (take 4 s) \<and> s ! 4 = 0x2D \<and>
      list_all is_digit (take 2 (drop 5 s)) \<and> s ! 7 = 0x2D \<and>
      list_all is_digit (take 2 (drop 8 s)) \<and> s ! 10 = 0x20 \<and>
      list_all is_digit (take 2 (drop 11 s)) \<and> s ! 13 = 0x3A \<and>
      list_all is_digit (take 2 (drop 14 s)) \<and> s ! 16 = 0x3A \<and>
      list_all is_digit (drop 17 s))"

subsection \<open>Example stores\<close>

text \<open>
  A webcam key with one packaged app that is using the camera (a start and no stop
  value), an index whose enumeration fails, a subkey that does not open, and a
  \<^verbatim>\<open>NonPackaged\<close> collection holding one desktop app with both values, one failing
  index and one subkey that does not open.
\<close>

definition ex_app1 :: reg_key where
  "ex_app1 = RegKey [(L ''LastUsedTimeStart'', 100)] []"

definition ex_desktop_app :: reg_key where
  "ex_desktop_app = RegKey [(L ''LastUsedTimeStart'', 50), (L ''LastUsedTimeStop'', 80)] []"

definition ex_nonpackaged :: reg_key where
  "ex_nonpackaged =
     RegKey [] [EnumName (L ''C:#app.exe'') (Some ex_desktop_app), EnumError,
                EnumName (L ''D:#locked.exe'') None]"

definition ex_webcam :: reg_key where
  "ex_webcam =
     RegKey [] [EnumName (L ''App1'') (Some ex_app1), EnumError,
                EnumName (L ''Locked'') None,
                EnumName (L ''NonPackaged'') (Some ex_nonpackaged)]"

definition ex_row_app1 :: CamRow where
  "ex_row_app1 = \<lparr> kind = L ''Packaged'', app = L ''App1'', exe = [],
                   activeNow = True, startFt = 100, stopFt = 0 \<rparr>"

definition ex_row_desktop :: CamRow where
  "ex_row_desktop = \<lparr> kind = L ''Desktop'', app = L ''app.exe'',
                      exe = L ''C:'' @ [BACKSLASH] @ L ''app.exe'',
                      activeNow = False, startFt = 50, stopFt = 80 \<rparr>"

text \<open>A webcam key with two packaged apps that never used the camera.\<close>

definition ex_ties :: reg_key where
  "ex_ties = RegKey [] [EnumName (L ''A'') (Some (RegKey [] [])),
                        EnumName (L ''B'') (Some (RegKey [] []))]"

definition ex_row_A :: CamRow where
  "ex_row_A = \<lparr> kind = L ''Packaged'', app = L ''A'', exe = [],
                activeNow = False, startFt = 0, stopFt = 0 \<rparr>"

definition ex_row_B :: CamRow where
  "ex_row_B = \<lparr> kind = L ''Packaged'', app = L ''B'', exe = [],
                activeNow = False, startFt = 0, stopFt = 0 \<rparr>"

text \<open>The rows of apps that never used the camera, by their names.\<close>

definition unused_rows :: "wstring \<Rightarrow> CamRow list" where
  "unused_rows names = map (\<lambda>c. packaged_row [c] 0 0) names"

text \<open>
  A webcam key with thirty-two packaged apps that never used the camera, \<open>0\<close> to
  \<open>6\<close> and \<open>A\<close> to \<open>Y\<close>, and after them the app \<open>Z\<close> with a start and no stop
  value.
\<close>

definition ex_many :: reg_key where
  "ex_many =
     RegKey [] (map (\<lambda>c. EnumName [c] (Some (RegKey [] [])))
                  (L ''0123456ABCDEFGHIJKLMNOPQRSTUVWXY'')
                @ [EnumName (L ''Z'') (Some ex_app1)])"

text \<open>
  A time interface for examples: timestamps with the top bit set do not convert,
  every other one is 5 March 2024, 07:08:09, in a zone without offset.
\<close>

definition ex_api :: time_api where
  "ex_api =
     \<lparr> FileTimeToSystemTime =
         (\<lambda>ft. if dwHighDateTime ft < 0x80000000
               then Some \<lparr> wYear = 2024, wMonth = 3, wDayOfWeek = 2, wDay = 5, wHour = 7,
                           wMinute = 8, wSecond = 9, wMilliseconds = 0 \<rparr>
               else None),
       SystemTimeToTzSpecificLocalTime = Some \<rparr>"

section \<open>Properties\<close>

subsection \<open>Replacing characters and taking the leaf name\<close>

lemma HASH_neq_BACKSLASH: "HASH \<noteq> BACKSLASH"
  by (simp add: HASH_def BACKSLASH_def)

lemma ReplaceAll_absent: "from \<noteq> to \<Longrightarrow> from \<notin> set (ReplaceAll s from to)"
  by (auto simp: ReplaceAll_def)

lemma ReplaceAll_back: "to \<notin> set s \<Longrightarrow> ReplaceAll (ReplaceAll s from to) to from = s"
  by (induction s) (auto simp: ReplaceAll_def)

text \<open>Replacing back restores the string exactly when it did not hold \<open>to\<close> before.\<close>

lemma ReplaceAll_back_iff: "ReplaceAll (ReplaceAll s from to) to from = s \<longleftrightarrow> (from = to \<or> to \<notin> set s)"
  by (induction s) (auto simp: ReplaceAll_def)

lemma find_last_of_None_iff: "find_last_of s chars = None \<longleftrightarrow> set s \<inter> set chars = {}"
  by (induction s) (auto split: option.splits)

lemma find_last_of_Some:
  "find_last_of s chars = Some pos \<Longrightarrow>
     pos < length s \<and> s ! pos \<in> set chars \<and> set (drop (Suc pos) s) \<inter> set chars = {}"
proof (induction s arbitrary: pos)
  case Nil
  then show ?case by simp
next
  case (Cons c s)
  show ?case
  proof (cases "find_last_of s chars")
    case None
    with Cons.prems have "c \<in> set chars" "pos = 0"
      by (auto split: if_splits)
    moreover from None have "set s \<inter> set chars = {}"
      by (simp add: find_last_of_None_iff)
    ultimately show ?thesis by simp
  next
    case (Some p)
    with Cons.prems have "pos = Suc p" by simp
    with Cons.IH [OF Some] show ?thesis by simp
  qed
qed

text \<open>\<^verbatim>\<open>LeafName\<close> calls \<^verbatim>\<open>substr\<close> inside the string, where it cannot throw.\<close>

lemma LeafName_substr_in_range:
  "find_last_of path chars = Some pos \<Longrightarrow> pos + 1 \<le> length path"
  using find_last_of_Some [of path chars pos] by simp

lemma LeafName_no_separator:
  "BACKSLASH \<notin> set (LeafName path) \<and> SLASH \<notin> set (LeafName path)"
proof (cases "find_last_of path [BACKSLASH, SLASH]")
  case None
  then have "set path \<inter> {BACKSLASH, SLASH} = {}"
    by (simp add: find_last_of_None_iff)
  moreover have "LeafName path = path"
    using None by (simp add: LeafName_def)
  ultimately show ?thesis by auto
next
  case (Some pos)
  then have "LeafName path = drop (Suc pos) path"
    by (simp add: LeafName_def substr_def)
  with find_last_of_Some [OF Some] show ?thesis by auto
qed

lemma LeafName_decompose:
  "(set path \<inter> {BACKSLASH, SLASH} = {} \<and> LeafName path = path) \<or>
   (\<exists>dir sep. sep \<in> {BACKSLASH, SLASH} \<and> path = dir @ sep # LeafName path)"
proof (cases "find_last_of path [BACKSLASH, SLASH]")
  case None
  then have "set path \<inter> {BACKSLASH, SLASH} = {}"
    by (simp add: find_last_of_None_iff)
  moreover have "LeafName path = path"
    using None by (simp add: LeafName_def)
  ultimately show ?thesis by simp
next
  case (Some pos)
  from find_last_of_Some [OF Some]
  have lt: "pos < length path" and sep: "path ! pos \<in> {BACKSLASH, SLASH}"
    by auto
  have "path = take pos path @ path ! pos # drop (Suc pos) path"
    using lt by (simp add: id_take_nth_drop)
  moreover have "LeafName path = drop (Suc pos) path"
    using Some by (simp add: LeafName_def substr_def)
  ultimately show ?thesis using sep by metis
qed

subsection \<open>The enumeration loops\<close>

lemma enum_desktop_append:
  "enum_desktop (xs @ ys) out = enum_desktop ys (enum_desktop xs out)"
  by (induction xs out rule: enum_desktop.induct) simp_all

lemma enum_base_append:
  "enum_base (xs @ ys) out = enum_base ys (enum_base xs out)"
  by (induction xs out rule: enum_base.induct) (simp_all split: option.splits)

lemma enum_desktop_out: "enum_desktop es out = out @ enum_desktop es []"
proof (induction es arbitrary: out)
  case Nil
  show ?case by simp
next
  case (Cons e es)
  show ?case
  proof (cases e)
    case EnumError
    with Cons.IH [of out] show ?thesis by simp
  next
    case (EnumName n2 opened)
    show ?thesis
    proof (cases opened)
      case None
      with EnumName Cons.IH [of out] show ?thesis by simp
    next
      case (Some hItem)
      let ?r = "desktop_row n2 (read_start hItem) (read_stop hItem)"
      have "enum_desktop es (out @ [?r]) = (out @ [?r]) @ enum_desktop es []"
        by (rule Cons.IH)
      moreover have "enum_desktop es ([] @ [?r]) = ([] @ [?r]) @ enum_desktop es []"
        by (rule Cons.IH)
      ultimately show ?thesis using EnumName Some by simp
    qed
  qed
qed

lemma enum_base_out: "enum_base es out = out @ enum_base es []"
proof (induction es arbitrary: out)
  case Nil
  show ?case by simp
next
  case (Cons e es)
  note IH = Cons.IH
  show ?case
  proof (cases e)
    case EnumError
    with IH [of out] show ?thesis by simp
  next
    case (EnumName subkey opened)
    show ?thesis
    proof (cases opened)
      case None
      with EnumName IH [of out] show ?thesis by simp
    next
      case (Some hKey)
      show ?thesis
      proof (cases "wcsicmp_eq subkey (L ''NonPackaged'')")
        case True
        let ?d = "enum_desktop (subkeys hKey) []"
        have "enum_base es (enum_desktop (subkeys hKey) out) = (out @ ?d) @ enum_base es []"
          using IH [of "enum_desktop (subkeys hKey) out"] enum_desktop_out [of "subkeys hKey" out]
          by simp
        moreover have "enum_base es ?d = ?d @ enum_base es []"
          by (rule IH)
        ultimately show ?thesis using EnumName Some True by simp
      next
        case False
        let ?r = "packaged_row subkey (read_start hKey) (read_stop hKey)"
        have "enum_base es (out @ [?r]) = (out @ [?r]) @ enum_base es []"
          by (rule IH)
        moreover have "enum_base es ([] @ [?r]) = ([] @ [?r]) @ enum_base es []"
          by (rule IH)
        ultimately show ?thesis using EnumName Some False by simp
      qed
    qed
  qed
qed

text \<open>Each loop appends, entry by entry, what it appends for that entry alone.\<close>

lemma enum_desktop_concat:
  "enum_desktop es out = out @ concat (map (\<lambda>e. enum_desktop [e] []) es)"
proof (induction es arbitrary: out)
  case Nil
  show ?case by simp
next
  case (Cons e es)
  have "enum_desktop (e # es) out = enum_desktop es (enum_desktop [e] out)"
    using enum_desktop_append [of "[e]" es out] by simp
  also have "\<dots> = enum_desktop [e] out @ concat (map (\<lambda>e. enum_desktop [e] []) es)"
    by (rule Cons.IH)
  also have "enum_desktop [e] out = out @ enum_desktop [e] []"
    by (rule enum_desktop_out)
  finally show ?case by simp
qed

lemma enum_base_concat:
  "enum_base es out = out @ concat (map (\<lambda>e. enum_base [e] []) es)"
proof (induction es arbitrary: out)
  case Nil
  show ?case by simp
next
  case (Cons e es)
  have "enum_base (e # es) out = enum_base es (enum_base [e] out)"
    using enum_base_append [of "[e]" es out] by simp
  also have "\<dots> = enum_base [e] out @ concat (map (\<lambda>e. enum_base [e] []) es)"
    by (rule Cons.IH)
  also have "enum_base [e] out = out @ enum_base [e] []"
    by (rule enum_base_out)
  finally show ?case by simp
qed

lemma enum_desktop_mem:
  "r \<in> set (enum_desktop es out) \<longleftrightarrow>
     r \<in> set out \<or> (\<exists>e \<in> set es. r \<in> set (enum_desktop [e] []))"
  by (subst enum_desktop_concat) auto

lemma enum_base_mem:
  "r \<in> set (enum_base es out) \<longleftrightarrow>
     r \<in> set out \<or> (\<exists>e \<in> set es. r \<in> set (enum_base [e] []))"
  by (subst enum_base_concat) auto

lemma enum_desktop_single:
  "enum_desktop [e] [] =
     (case e of
        EnumName n2 (Some hItem) \<Rightarrow> [desktop_row n2 (read_start hItem) (read_stop hItem)]
      | _ \<Rightarrow> [])"
  by (simp split: enum_entry.splits option.splits)

lemma enum_base_single:
  "enum_base [e] [] =
     (case e of
        EnumName subkey (Some hKey) \<Rightarrow>
          if wcsicmp_eq subkey (L ''NonPackaged'') then enum_desktop (subkeys hKey) []
          else [packaged_row subkey (read_start hKey) (read_stop hKey)]
      | _ \<Rightarrow> [])"
  by (simp split: enum_entry.splits option.splits)

text \<open>Every row the loops add was built by one of the two row builders.\<close>

lemma enum_desktop_rows:
  assumes "r \<in> set (enum_desktop es [])"
  shows "\<exists>n2 hItem. EnumName n2 (Some hItem) \<in> set es \<and>
           r = desktop_row n2 (read_start hItem) (read_stop hItem)"
proof -
  from assms obtain e where e: "e \<in> set es" "r \<in> set (enum_desktop [e] [])"
    by (auto simp: enum_desktop_mem [of r es])
  from e(2) obtain n2 hItem where "e = EnumName n2 (Some hItem)"
    and "r = desktop_row n2 (read_start hItem) (read_stop hItem)"
    unfolding enum_desktop_single by (auto split: enum_entry.splits option.splits)
  with e(1) show ?thesis by blast
qed

lemma enum_desktop_has_row:
  assumes "EnumName n2 (Some hItem) \<in> set es"
  shows "desktop_row n2 (read_start hItem) (read_stop hItem) \<in> set (enum_desktop es out)"
proof -
  have "desktop_row n2 (read_start hItem) (read_stop hItem)
          \<in> set (enum_desktop [EnumName n2 (Some hItem)] [])"
    by simp
  with assms show ?thesis
    unfolding enum_desktop_mem [of _ es] by blast
qed

lemma enum_base_rows:
  assumes "r \<in> set (enum_base es [])"
  shows "(\<exists>subkey hChild. EnumName subkey (Some hChild) \<in> set es \<and>
            \<not> wcsicmp_eq subkey (L ''NonPackaged'') \<and>
            r = packaged_row subkey (read_start hChild) (read_stop hChild)) \<or>
         (\<exists>subkey hNp n2 hItem. EnumName subkey (Some hNp) \<in> set es \<and>
            wcsicmp_eq subkey (L ''NonPackaged'') \<and>
            EnumName n2 (Some hItem) \<in> set (subkeys hNp) \<and>
            r = desktop_row n2 (read_start hItem) (read_stop hItem))"
proof -
  from assms obtain e where e: "e \<in> set es" "r \<in> set (enum_base [e] [])"
    by (auto simp: enum_base_mem [of r es])
  show ?thesis
  proof (cases e)
    case EnumError
    with e(2) show ?thesis
      unfolding enum_base_single by simp
  next
    case (EnumName subkey opened)
    show ?thesis
    proof (cases opened)
      case None
      with EnumName e(2) show ?thesis
        unfolding enum_base_single by simp
    next
      case (Some hKey)
      show ?thesis
      proof (cases "wcsicmp_eq subkey (L ''NonPackaged'')")
        case True
        with EnumName Some e(2) have "r \<in> set (enum_desktop (subkeys hKey) [])"
          unfolding enum_base_single by simp
        from enum_desktop_rows [OF this] obtain n2 hItem
          where "EnumName n2 (Some hItem) \<in> set (subkeys hKey)"
            and "r = desktop_row n2 (read_start hItem) (read_stop hItem)"
          by blast
        with True EnumName Some e(1) show ?thesis by blast
      next
        case False
        with EnumName Some e(2)
        have "r = packaged_row subkey (read_start hKey) (read_stop hKey)"
          unfolding enum_base_single by simp
        with False EnumName Some e(1) show ?thesis by blast
      qed
    qed
  qed
qed

lemma enum_base_has_packaged:
  assumes "EnumName subkey (Some hChild) \<in> set es"
    and "\<not> wcsicmp_eq subkey (L ''NonPackaged'')"
  shows "packaged_row subkey (read_start hChild) (read_stop hChild) \<in> set (enum_base es out)"
proof -
  have "packaged_row subkey (read_start hChild) (read_stop hChild)
          \<in> set (enum_base [EnumName subkey (Some hChild)] [])"
    using assms(2) by simp
  with assms(1) show ?thesis
    unfolding enum_base_mem [of _ es] by blast
qed

lemma enum_base_has_desktop:
  assumes "EnumName subkey (Some hNp) \<in> set es"
    and "wcsicmp_eq subkey (L ''NonPackaged'')"
    and "EnumName n2 (Some hItem) \<in> set (subkeys hNp)"
  shows "desktop_row n2 (read_start hItem) (read_stop hItem) \<in> set (enum_base es out)"
proof -
  have "desktop_row n2 (read_start hItem) (read_stop hItem)
          \<in> set (enum_base [EnumName subkey (Some hNp)] [])"
    using assms(2) enum_desktop_has_row [OF assms(3), of "[]"] by simp
  with assms(1) show ?thesis
    unfolding enum_base_mem [of _ es] by blast
qed

subsection \<open>The comparator and the sort\<close>

text \<open>
  The comparator is a strict weak ordering, as \<^verbatim>\<open>std::sort\<close> requires: irreflexive,
  transitive, and with an equivalence as its incomparability.
\<close>

lemma row_less_irrefl: "\<not> row_less a a"
  by (simp add: row_less_def)

lemma row_less_trans: "row_less a b \<Longrightarrow> row_less b c \<Longrightarrow> row_less a c"
  by (auto simp: row_less_def split: if_splits)

lemma row_less_incomparable: "\<not> row_less a b \<and> \<not> row_less b a \<longleftrightarrow> same_keys a b"
  by (auto simp: row_less_def same_keys_def split: if_splits)

lemma same_keys_equiv:
  "same_keys a a" "same_keys a b \<Longrightarrow> same_keys b a"
  "same_keys a b \<Longrightarrow> same_keys b c \<Longrightarrow> same_keys a c"
  by (auto simp: same_keys_def)

lemma not_row_less_iff:
  "\<not> row_less b a \<longleftrightarrow>
     (activeNow b \<longrightarrow> activeNow a) \<and> (activeNow a = activeNow b \<longrightarrow> startFt b \<le> startFt a)"
  by (auto simp: row_less_def)

lemma not_row_less_rank: "\<not> row_less b a \<longleftrightarrow> sort_rank a \<le> sort_rank b"
proof -
  have a: "unat (startFt a) < 2 ^ 64" and b: "unat (startFt b) < 2 ^ 64"
    using unsigned_less [of "startFt a"] unsigned_less [of "startFt b"] by simp_all
  show ?thesis
    using a b by (auto simp: row_less_def sort_rank_def word_less_nat_alt word_le_nat_alt)
qed

text \<open>The contract can be met: insertion sort on the rank is one permitted result.\<close>

lemma std_sort_post_sort_key: "std_sort_post row_less xs (sort_key sort_rank xs)"
proof -
  have "sorted (map sort_rank (sort_key sort_rank xs))"
    by simp
  then have "sorted_wrt (\<lambda>a b. sort_rank a \<le> sort_rank b) (sort_key sort_rank xs)"
    by (simp add: sorted_map)
  then show ?thesis
    by (simp add: std_sort_post_def not_row_less_rank)
qed

lemma LoadConsentStore_returns: "\<exists>out'. LoadConsentStore hkcu_webcam out out'"
proof (cases hkcu_webcam)
  case None
  then show ?thesis by (simp add: LoadConsentStore_def)
next
  case (Some hBase)
  then show ?thesis
    using std_sort_post_sort_key [of "enum_base (subkeys hBase) []"]
    by (auto simp: LoadConsentStore_def)
qed

lemma std_sort_post_set: "std_sort_post lt xs ys \<Longrightarrow> set ys = set xs"
  by (auto simp: std_sort_post_def dest: mset_eq_setD)

lemma std_sort_post_nth:
  "std_sort_post lt xs ys \<Longrightarrow> i < j \<Longrightarrow> j < length ys \<Longrightarrow> \<not> lt (ys ! j) (ys ! i)"
  by (auto simp: std_sort_post_def sorted_wrt_iff_nth_less)

lemma LoadConsentStore_rows:
  "LoadConsentStore (Some hBase) out out' \<Longrightarrow> set out' = set (enum_base (subkeys hBase) [])"
  by (simp add: LoadConsentStore_def std_sort_post_set)

lemma LoadConsentStore_ordered:
  "LoadConsentStore hkcu_webcam out out' \<Longrightarrow> i < j \<Longrightarrow> j < length out' \<Longrightarrow>
     \<not> row_less (out' ! j) (out' ! i)"
  by (cases hkcu_webcam) (auto simp: LoadConsentStore_def dest: std_sort_post_nth)

lemma sorted_wrt_partition:
  assumes "sorted_wrt R xs" and "\<And>a b. R a b \<Longrightarrow> P b \<Longrightarrow> P a"
  shows "xs = filter P xs @ filter (\<lambda>x. \<not> P x) xs"
  using assms(1)
proof (induction xs)
  case Nil
  show ?case by simp
next
  case (Cons x xs)
  then have rest: "xs = filter P xs @ filter (\<lambda>x. \<not> P x) xs" and R: "\<forall>y \<in> set xs. R x y"
    by simp_all
  show ?case
  proof (cases "P x")
    case True
    with rest show ?thesis by simp
  next
    case False
    with R assms(2) have "\<forall>y \<in> set xs. \<not> P y" by blast
    then have "filter P xs = []" "filter (\<lambda>x. \<not> P x) xs = xs"
      by (simp_all add: filter_empty_conv filter_id_conv)
    with False show ?thesis by simp
  qed
qed

subsection \<open>The timestamp formatter\<close>

lemma length_dec_digits: "0 < k \<Longrightarrow> n < 10 ^ k \<Longrightarrow> length (dec_digits n) \<le> k"
proof (induction n arbitrary: k rule: dec_digits.induct)
  case (1 n)
  show ?case
  proof (cases "n < 10")
    case True
    then show ?thesis using "1.prems" by (simp add: dec_digits.simps [of n])
  next
    case False
    then obtain k' where k: "k = Suc k'" using "1.prems" by (cases k) auto
    with False "1.prems" have "0 < k'" by (cases k') auto
    moreover have "n div 10 < 10 ^ k'" using "1.prems" k by (simp add: less_mult_imp_div_less)
    ultimately have "length (dec_digits (n div 10)) \<le> k'"
      using "1.IH" False by simp
    then show ?thesis using False k by (simp add: dec_digits.simps [of n])
  qed
qed

lemma length_fmt_0u: "length (fmt_0u width n) = max width (length (dec_digits n))"
  by (simp add: fmt_0u_def)

lemma length_fmt_0u_exact: "0 < width \<Longrightarrow> n < 10 ^ width \<Longrightarrow> length (fmt_0u width n) = width"
  using length_dec_digits [of width n] by (simp add: length_fmt_0u)

lemma length_fmt_0u_WORD: "width \<le> 5 \<Longrightarrow> length (fmt_0u width (unat (w :: WORD))) \<le> 5"
proof -
  have "unat w < 2 ^ 16" using unsigned_less [of w] by simp
  then have "unat w < 10 ^ 5" by simp
  then have "length (dec_digits (unat w)) \<le> 5"
    using length_dec_digits [of 5 "unat w"] by simp
  then show "width \<le> 5 \<Longrightarrow> ?thesis" by (simp add: length_fmt_0u)
qed

lemma digit_char: "d < 10 \<Longrightarrow> (0x30 :: wchar_t) + of_nat d \<in> {0x30 .. 0x39}"
proof -
  assume "d < 10"
  then have "d \<in> {0, 1, 2, 3, 4, 5, 6, 7, 8, 9}" by auto
  then show ?thesis by auto
qed

lemma dec_digits_chars: "set (dec_digits n) \<subseteq> {0x30 .. 0x39}"
proof (induction n rule: dec_digits.induct)
  case (1 n)
  show ?case
  proof (cases "n < 10")
    case True
    then show ?thesis using digit_char [of n] by (simp add: dec_digits.simps [of n])
  next
    case False
    then show ?thesis
      using "1.IH" digit_char [of "n mod 10"] by (simp add: dec_digits.simps [of n])
  qed
qed

lemma fmt_0u_chars: "set (fmt_0u width n) \<subseteq> {0x30 .. 0x39}"
  using dec_digits_chars [of n] by (auto simp: fmt_0u_def)

text \<open>The text printed is short enough for the buffer of 64 characters.\<close>

lemma length_fmt_datetime: "length (fmt_datetime st) \<le> 35"
  using length_fmt_0u_WORD [of 4 "wYear st"] length_fmt_0u_WORD [of 2 "wMonth st"]
    length_fmt_0u_WORD [of 2 "wDay st"] length_fmt_0u_WORD [of 2 "wHour st"]
    length_fmt_0u_WORD [of 2 "wMinute st"] length_fmt_0u_WORD [of 2 "wSecond st"]
  by (simp add: fmt_datetime_def L_def)

lemma swprintf_s_fmt_datetime: "swprintf_s 64 (fmt_datetime st) = Some (fmt_datetime st)"
  using length_fmt_datetime [of st] by (simp add: swprintf_s_def)

lemma FtToLocalString_total: "FtToLocalString api ft = Some (ft_text api ft)"
  by (simp add: FtToLocalString_def ft_text_def swprintf_s_fmt_datetime Let_def
      split: option.splits)

subsection \<open>The list view\<close>

text \<open>
  The counter of the loop is the number of items, so every insertion is at the end,
  and the five texts set afterwards go to the item just inserted.
\<close>

lemma populate_loop_eq:
  "populate_loop api src currentOnly (length hList) hList =
     Some (hList @ map (row_item api) (filter (\<lambda>r. \<not> (currentOnly \<and> \<not> activeNow r)) src))"
proof (induction src arbitrary: hList)
  case Nil
  show ?case by simp
next
  case (Cons r rest)
  show ?case
  proof (cases "currentOnly \<and> \<not> activeNow r")
    case True
    then show ?thesis using Cons.IH [of hList] by simp
  next
    case False
    let ?item = "[kind r, app r, exe r, if activeNow r then L ''Yes'' else L ''No'',
                  ft_text api (startFt r), ft_text api (stopFt r)]"
    have "populate_loop api (r # rest) currentOnly (length hList) hList =
            populate_loop api rest currentOnly (length (hList @ [?item])) (hList @ [?item])"
      using False
      by (auto simp: FtToLocalString_total Let_def ListView_InsertItem_def
          ListView_SetItemText_def)
    also have "\<dots> = Some ((hList @ [?item]) @ map (row_item api)
                        (filter (\<lambda>r. \<not> (currentOnly \<and> \<not> activeNow r)) rest))"
      by (rule Cons.IH)
    finally have step: "populate_loop api (r # rest) currentOnly (length hList) hList =
        Some ((hList @ [?item]) @ map (row_item api)
                (filter (\<lambda>r. \<not> (currentOnly \<and> \<not> activeNow r)) rest))" .
    show ?thesis
      unfolding step using False by (simp add: row_item_def)
  qed
qed

lemma ListView_Populate_eq:
  "ListView_Populate api hList src currentOnly =
     Some (map (row_item api) (filter (\<lambda>r. \<not> (currentOnly \<and> \<not> activeNow r)) src))"
  using populate_loop_eq [of api src currentOnly "[]"]
  by (simp add: ListView_Populate_def ListView_DeleteAllItems_def)

subsection \<open>The example stores, evaluated\<close>

lemma ex_enum: "enum_base (subkeys ex_webcam) [] = [ex_row_app1, ex_row_desktop]"
  by (simp add: ex_webcam_def ex_nonpackaged_def ex_app1_def ex_desktop_app_def
      ex_row_app1_def ex_row_desktop_def wcsicmp_eq_def towlower_C_def L_def
      packaged_row_def desktop_row_def read_start_def read_stop_def RegGetQword_def
      RegGetValueW_QWORD_def ReplaceAll_def LeafName_def substr_def HASH_def BACKSLASH_def
      SLASH_def)

lemma ex_load: "LoadConsentStore (Some ex_webcam) [] [ex_row_app1, ex_row_desktop]"
  by (simp add: LoadConsentStore_def ex_enum std_sort_post_def row_less_def
      ex_row_app1_def ex_row_desktop_def)

lemma ex_ties_enum: "enum_base (subkeys ex_ties) [] = [ex_row_A, ex_row_B]"
  by (simp add: ex_ties_def ex_row_A_def ex_row_B_def wcsicmp_eq_def towlower_C_def L_def
      packaged_row_def read_start_def read_stop_def RegGetQword_def
      RegGetValueW_QWORD_def)

subsection \<open>The rows\<close>

lemma kind_rows:
  "kind (packaged_row subkey start stop) = L ''Packaged''"
  "kind (desktop_row n2 start stop) = L ''Desktop''"
  "L ''Packaged'' \<noteq> L ''Desktop''"
  by (simp_all add: packaged_row_def desktop_row_def L_def Let_def)

lemma active_rows:
  "activeNow (packaged_row subkey start stop) = (start \<noteq> 0 \<and> stop = 0)"
  "startFt (packaged_row subkey start stop) = start"
  "stopFt (packaged_row subkey start stop) = stop"
  "activeNow (desktop_row n2 start stop) = (start \<noteq> 0 \<and> stop = 0)"
  "startFt (desktop_row n2 start stop) = start"
  "stopFt (desktop_row n2 start stop) = stop"
  by (simp_all add: packaged_row_def desktop_row_def Let_def)

lemma text_rows:
  "app (packaged_row subkey start stop) = subkey"
  "exe (packaged_row subkey start stop) = []"
  "exe (desktop_row n2 start stop) = ReplaceAll n2 HASH BACKSLASH"
  "app (desktop_row n2 start stop) = LeafName (ReplaceAll n2 HASH BACKSLASH)"
  by (simp_all add: packaged_row_def desktop_row_def Let_def)

text \<open>
  C1. The row built from a record, Packaged or Desktop, is active exactly when its
  start timestamp is not zero and its stop timestamp is zero; the two timestamps are
  those of the record, and so every row \<^verbatim>\<open>LoadConsentStore\<close> leaves in the vector has
  \<open>activeNow = (startFt \<noteq> 0 \<and> stopFt = 0)\<close>.
\<close>

theorem activeNow_iff_started_not_stopped:
  "activeNow (packaged_row subkey start stop) = (start \<noteq> 0 \<and> stop = 0) \<and>
   activeNow (desktop_row n2 start stop) = (start \<noteq> 0 \<and> stop = 0) \<and>
   (LoadConsentStore hkcu_webcam out out' \<longrightarrow>
      (\<forall>r \<in> set out'. activeNow r = (startFt r \<noteq> 0 \<and> stopFt r = 0)))"
proof (intro conjI impI ballI)
  fix r
  assume load: "LoadConsentStore hkcu_webcam out out'" and r: "r \<in> set out'"
  show "activeNow r = (startFt r \<noteq> 0 \<and> stopFt r = 0)"
  proof (cases hkcu_webcam)
    case None
    with load r show ?thesis by (simp add: LoadConsentStore_def)
  next
    case (Some hBase)
    with load r have "r \<in> set (enum_base (subkeys hBase) [])"
      by (simp add: LoadConsentStore_rows)
    from enum_base_rows [OF this] show ?thesis
      by (auto simp: active_rows)
  qed
qed (simp_all add: active_rows)

theorem activeNow_iff_started_not_stopped_witness:
  "LoadConsentStore (Some ex_webcam) [] [ex_row_app1, ex_row_desktop] \<and>
   activeNow ex_row_app1 = (startFt ex_row_app1 \<noteq> 0 \<and> stopFt ex_row_app1 = 0) \<and>
   activeNow ex_row_desktop = (startFt ex_row_desktop \<noteq> 0 \<and> stopFt ex_row_desktop = 0) \<and>
   activeNow ex_row_app1 \<and> \<not> activeNow ex_row_desktop"
  using activeNow_iff_started_not_stopped
    [where hkcu_webcam = "Some ex_webcam" and out = "[]"
       and out' = "[ex_row_app1, ex_row_desktop]"] ex_load
  by (simp add: ex_row_app1_def ex_row_desktop_def)

text \<open>
  C3. The identity of a Desktop record is the name of a registry key, and a key name
  holds no backslash (that is why the store writes \<open>#\<close> for it). For every such
  identity, replacing \<open>#\<close> by the backslash, which gives the \<open>exe\<close> of the row, and
  then the backslash by \<open>#\<close> gives the identity back.
\<close>

theorem decode_then_encode_identity:
  "BACKSLASH \<notin> set n2 \<Longrightarrow> ReplaceAll (exe (desktop_row n2 start stop)) BACKSLASH HASH = n2"
  by (simp add: text_rows ReplaceAll_back)

theorem decode_then_encode_identity_witness:
  "BACKSLASH \<notin> set (L ''C:#app.exe'') \<and>
   exe (desktop_row (L ''C:#app.exe'') 50 80) = L ''C:'' @ [BACKSLASH] @ L ''app.exe'' \<and>
   ReplaceAll (exe (desktop_row (L ''C:#app.exe'') 50 80)) BACKSLASH HASH = L ''C:#app.exe''"
proof -
  have h: "BACKSLASH \<notin> set (L ''C:#app.exe'')"
    by (simp add: L_def BACKSLASH_def)
  have "exe (desktop_row (L ''C:#app.exe'') 50 80) = L ''C:'' @ [BACKSLASH] @ L ''app.exe''"
    by (simp add: text_rows ReplaceAll_def L_def HASH_def BACKSLASH_def)
  with h decode_then_encode_identity [OF h, of 50 80] show ?thesis by simp
qed

text \<open>
  C10. In every Desktop row that \<^verbatim>\<open>LoadConsentStore\<close> leaves in the vector, \<open>exe\<close>
  holds no \<open>#\<close> (each one in the stored identity became a backslash, also one that
  stood for itself in a file name), and \<open>app\<close> holds neither a backslash nor a slash.
\<close>

theorem desktop_row_no_marker_no_separator:
  assumes "LoadConsentStore hkcu_webcam out out'"
    and "r \<in> set out'"
    and "kind r = L ''Desktop''"
  shows "HASH \<notin> set (exe r) \<and> BACKSLASH \<notin> set (app r) \<and> SLASH \<notin> set (app r)"
proof (cases hkcu_webcam)
  case None
  with assms show ?thesis by (simp add: LoadConsentStore_def)
next
  case (Some hBase)
  with assms have "r \<in> set (enum_base (subkeys hBase) [])"
    by (simp add: LoadConsentStore_rows)
  from enum_base_rows [OF this] assms(3)
  obtain n2 start stop where r: "r = desktop_row n2 start stop"
    by (auto simp: kind_rows)
  show ?thesis
    unfolding r text_rows
    using ReplaceAll_absent [OF HASH_neq_BACKSLASH, of n2]
      LeafName_no_separator [of "ReplaceAll n2 HASH BACKSLASH"]
    by simp
qed

theorem desktop_row_no_marker_no_separator_witness:
  "LoadConsentStore (Some ex_webcam) [] [ex_row_app1, ex_row_desktop] \<and>
   ex_row_desktop \<in> set [ex_row_app1, ex_row_desktop] \<and>
   kind ex_row_desktop = L ''Desktop'' \<and>
   HASH \<notin> set (exe ex_row_desktop) \<and> BACKSLASH \<notin> set (app ex_row_desktop) \<and>
   SLASH \<notin> set (app ex_row_desktop)"
proof -
  have m: "ex_row_desktop \<in> set [ex_row_app1, ex_row_desktop]" by simp
  have k: "kind ex_row_desktop = L ''Desktop''" by (simp add: ex_row_desktop_def)
  from desktop_row_no_marker_no_separator [OF ex_load m k] ex_load m k
  show ?thesis by simp
qed

subsection \<open>Records and rows\<close>

lemma read_defaults:
  "read_start hKey = (case RegGetValueW_QWORD hKey (L ''LastUsedTimeStart'') of
                        None \<Rightarrow> 0 | Some val \<Rightarrow> val)"
  "read_stop hKey = (case RegGetValueW_QWORD hKey (L ''LastUsedTimeStop'') of
                       None \<Rightarrow> 0 | Some val \<Rightarrow> val)"
  by (simp_all add: read_start_def read_stop_def RegGetQword_def split: option.splits)

text \<open>
  C7. Every record that opens gives a row in the vector \<^verbatim>\<open>LoadConsentStore\<close> leaves:
  for a subkey of the webcam key other than \<^verbatim>\<open>NonPackaged\<close>, a Packaged row whose
  \<open>app\<close> is the name of the subkey and whose \<open>exe\<close> is empty; for a subkey of
  \<^verbatim>\<open>NonPackaged\<close>, a Desktop row whose \<open>exe\<close> is the name with every \<open>#\<close> replaced
  by a backslash and whose \<open>app\<close> is the last component of \<open>exe\<close>: all of \<open>exe\<close>
  when it holds no separator, otherwise what follows its last separator. Every row in
  the vector is one of these.
\<close>

theorem rows_of_records:
  assumes "LoadConsentStore (Some hBase) out out'"
  shows "(\<forall>subkey hChild.
            EnumName subkey (Some hChild) \<in> set (subkeys hBase) \<and>
            \<not> wcsicmp_eq subkey (L ''NonPackaged'') \<longrightarrow>
            (\<exists>r \<in> set out'. kind r = L ''Packaged'' \<and> app r = subkey \<and> exe r = [] \<and>
               startFt r = read_start hChild \<and> stopFt r = read_stop hChild)) \<and>
         (\<forall>subkey hNp n2 hItem.
            EnumName subkey (Some hNp) \<in> set (subkeys hBase) \<and>
            wcsicmp_eq subkey (L ''NonPackaged'') \<and>
            EnumName n2 (Some hItem) \<in> set (subkeys hNp) \<longrightarrow>
            (\<exists>r \<in> set out'. kind r = L ''Desktop'' \<and>
               exe r = ReplaceAll n2 HASH BACKSLASH \<and> app r = LeafName (exe r) \<and>
               startFt r = read_start hItem \<and> stopFt r = read_stop hItem)) \<and>
         (\<forall>r \<in> set out'.
            (kind r = L ''Packaged'' \<and> exe r = [] \<and>
             (\<exists>hChild. EnumName (app r) (Some hChild) \<in> set (subkeys hBase))) \<or>
            (kind r = L ''Desktop'' \<and>
             (\<exists>n2. exe r = ReplaceAll n2 HASH BACKSLASH) \<and>
             BACKSLASH \<notin> set (app r) \<and> SLASH \<notin> set (app r) \<and>
             ((set (exe r) \<inter> {BACKSLASH, SLASH} = {} \<and> app r = exe r) \<or>
              (\<exists>dir sep. sep \<in> {BACKSLASH, SLASH} \<and> exe r = dir @ sep # app r))))"
proof (intro conjI allI impI ballI)
  fix subkey hChild
  assume "EnumName subkey (Some hChild) \<in> set (subkeys hBase) \<and>
          \<not> wcsicmp_eq subkey (L ''NonPackaged'')"
  then have "packaged_row subkey (read_start hChild) (read_stop hChild) \<in> set out'"
    using enum_base_has_packaged [of subkey hChild "subkeys hBase" "[]"]
      LoadConsentStore_rows [OF assms] by simp
  then show "\<exists>r \<in> set out'. kind r = L ''Packaged'' \<and> app r = subkey \<and> exe r = [] \<and>
               startFt r = read_start hChild \<and> stopFt r = read_stop hChild"
    by (rule bexI [rotated]) (simp add: kind_rows text_rows active_rows)
next
  fix subkey hNp n2 hItem
  assume "EnumName subkey (Some hNp) \<in> set (subkeys hBase) \<and>
          wcsicmp_eq subkey (L ''NonPackaged'') \<and>
          EnumName n2 (Some hItem) \<in> set (subkeys hNp)"
  then have "desktop_row n2 (read_start hItem) (read_stop hItem) \<in> set out'"
    using enum_base_has_desktop [of subkey hNp "subkeys hBase" n2 hItem "[]"]
      LoadConsentStore_rows [OF assms] by simp
  then show "\<exists>r \<in> set out'. kind r = L ''Desktop'' \<and>
               exe r = ReplaceAll n2 HASH BACKSLASH \<and> app r = LeafName (exe r) \<and>
               startFt r = read_start hItem \<and> stopFt r = read_stop hItem"
    by (rule bexI [rotated]) (simp add: kind_rows text_rows active_rows)
next
  fix r
  assume "r \<in> set out'"
  then have "r \<in> set (enum_base (subkeys hBase) [])"
    using LoadConsentStore_rows [OF assms] by simp
  from enum_base_rows [OF this]
  consider subkey hChild where "EnumName subkey (Some hChild) \<in> set (subkeys hBase)"
      and "r = packaged_row subkey (read_start hChild) (read_stop hChild)"
    | n2 start stop where "r = desktop_row n2 start stop"
    by blast
  then show "(kind r = L ''Packaged'' \<and> exe r = [] \<and>
             (\<exists>hChild. EnumName (app r) (Some hChild) \<in> set (subkeys hBase))) \<or>
            (kind r = L ''Desktop'' \<and>
             (\<exists>n2. exe r = ReplaceAll n2 HASH BACKSLASH) \<and>
             BACKSLASH \<notin> set (app r) \<and> SLASH \<notin> set (app r) \<and>
             ((set (exe r) \<inter> {BACKSLASH, SLASH} = {} \<and> app r = exe r) \<or>
              (\<exists>dir sep. sep \<in> {BACKSLASH, SLASH} \<and> exe r = dir @ sep # app r)))"
  proof cases
    case 1
    then show ?thesis
      by (auto simp: kind_rows text_rows)
  next
    case 2
    have "kind r = L ''Desktop''" "\<exists>n2. exe r = ReplaceAll n2 HASH BACKSLASH"
      "app r = LeafName (exe r)"
      unfolding 2 by (auto simp: kind_rows text_rows)
    then show ?thesis
      using LeafName_no_separator [of "exe r"] LeafName_decompose [of "exe r"]
      by simp
  qed
qed

theorem rows_of_records_witness:
  "LoadConsentStore (Some ex_webcam) [] [ex_row_app1, ex_row_desktop] \<and>
   (\<exists>r \<in> set [ex_row_app1, ex_row_desktop].
      kind r = L ''Packaged'' \<and> app r = L ''App1'' \<and> exe r = []) \<and>
   (\<exists>r \<in> set [ex_row_app1, ex_row_desktop].
      kind r = L ''Desktop'' \<and> exe r = ReplaceAll (L ''C:#app.exe'') HASH BACKSLASH \<and>
      app r = LeafName (exe r)) \<and>
   app ex_row_desktop = L ''app.exe'' \<and>
   exe ex_row_desktop = L ''C:'' @ [BACKSLASH] @ L ''app.exe''"
proof -
  note inst = rows_of_records [OF ex_load]
  have p: "EnumName (L ''App1'') (Some ex_app1) \<in> set (subkeys ex_webcam) \<and>
           \<not> wcsicmp_eq (L ''App1'') (L ''NonPackaged'')"
    by (simp add: ex_webcam_def wcsicmp_eq_def L_def)
  have d: "EnumName (L ''NonPackaged'') (Some ex_nonpackaged) \<in> set (subkeys ex_webcam) \<and>
           wcsicmp_eq (L ''NonPackaged'') (L ''NonPackaged'') \<and>
           EnumName (L ''C:#app.exe'') (Some ex_desktop_app) \<in> set (subkeys ex_nonpackaged)"
    by (simp add: ex_webcam_def ex_nonpackaged_def wcsicmp_eq_def)
  from inst p have "\<exists>r \<in> set [ex_row_app1, ex_row_desktop].
      kind r = L ''Packaged'' \<and> app r = L ''App1'' \<and> exe r = []"
    by blast
  moreover from inst d have "\<exists>r \<in> set [ex_row_app1, ex_row_desktop].
      kind r = L ''Desktop'' \<and> exe r = ReplaceAll (L ''C:#app.exe'') HASH BACKSLASH \<and>
      app r = LeafName (exe r)"
    by blast
  ultimately show ?thesis
    using ex_load by (simp add: ex_row_desktop_def)
qed

text \<open>
  C8. An index whose enumeration fails and a subkey that does not open add nothing,
  in the outer loop and in the loop over \<^verbatim>\<open>NonPackaged\<close>, and the entries after them
  are handled as if they were not there. A subkey that opens always adds its row,
  with 0 for each of \<^verbatim>\<open>LastUsedTimeStart\<close> and \<^verbatim>\<open>LastUsedTimeStop\<close> that cannot be
  read, and the loop goes on with the entries after it.
\<close>

theorem enumeration_skips_failures_and_defaults_values:
  "enum_base (before @ EnumError # after) out = enum_base (before @ after) out \<and>
   enum_base (before @ EnumName subkey None # after) out = enum_base (before @ after) out \<and>
   enum_desktop (before @ EnumError # after) out = enum_desktop (before @ after) out \<and>
   enum_desktop (before @ EnumName n2 None # after) out = enum_desktop (before @ after) out \<and>
   (\<not> wcsicmp_eq subkey (L ''NonPackaged'') \<longrightarrow>
      enum_base (before @ EnumName subkey (Some hChild) # after) out =
        enum_base after (enum_base before out @
          [packaged_row subkey
             (case RegGetValueW_QWORD hChild (L ''LastUsedTimeStart'') of
                None \<Rightarrow> 0 | Some val \<Rightarrow> val)
             (case RegGetValueW_QWORD hChild (L ''LastUsedTimeStop'') of
                None \<Rightarrow> 0 | Some val \<Rightarrow> val)])) \<and>
   enum_desktop (before @ EnumName n2 (Some hItem) # after) out =
     enum_desktop after (enum_desktop before out @
       [desktop_row n2
          (case RegGetValueW_QWORD hItem (L ''LastUsedTimeStart'') of
             None \<Rightarrow> 0 | Some val \<Rightarrow> val)
          (case RegGetValueW_QWORD hItem (L ''LastUsedTimeStop'') of
             None \<Rightarrow> 0 | Some val \<Rightarrow> val)])"
  by (simp add: enum_base_append enum_desktop_append read_defaults)

theorem enumeration_skips_failures_and_defaults_values_witness:
  "\<not> wcsicmp_eq (L ''App1'') (L ''NonPackaged'') \<and>
   enum_base ([EnumName (L ''App1'') (Some ex_app1)] @ EnumError # [EnumName (L ''Locked'') None]) []
     = enum_base ([EnumName (L ''App1'') (Some ex_app1)] @ [EnumName (L ''Locked'') None]) [] \<and>
   enum_base ([] @ EnumName (L ''App1'') (Some ex_app1) # [EnumError]) [] =
     enum_base [EnumError] (enum_base [] [] @ [packaged_row (L ''App1'') 100 0]) \<and>
   enum_base ([] @ EnumName (L ''App1'') (Some ex_app1) # [EnumError]) [] = [ex_row_app1]"
proof -
  have h: "\<not> wcsicmp_eq (L ''App1'') (L ''NonPackaged'')"
    by (simp add: wcsicmp_eq_def L_def)
  have v: "RegGetValueW_QWORD ex_app1 (L ''LastUsedTimeStart'') = Some 100"
    "RegGetValueW_QWORD ex_app1 (L ''LastUsedTimeStop'') = None"
    by (simp_all add: RegGetValueW_QWORD_def ex_app1_def L_def)
  have r: "packaged_row (L ''App1'') 100 0 = ex_row_app1"
    by (simp add: packaged_row_def ex_row_app1_def)
  from enumeration_skips_failures_and_defaults_values
    [of "[EnumName (L ''App1'') (Some ex_app1)]" "[EnumName (L ''Locked'') None]" "[]"
        "L ''App1''" "[]" ex_app1]
  have "enum_base ([EnumName (L ''App1'') (Some ex_app1)] @ EnumError # [EnumName (L ''Locked'') None]) []
     = enum_base ([EnumName (L ''App1'') (Some ex_app1)] @ [EnumName (L ''Locked'') None]) []"
    by blast
  moreover from enumeration_skips_failures_and_defaults_values
    [where before = "[]" and after = "[EnumError]" and out = "[]" and subkey = "L ''App1''"
       and hChild = ex_app1] h
  have "enum_base ([] @ EnumName (L ''App1'') (Some ex_app1) # [EnumError]) [] =
     enum_base [EnumError] (enum_base [] [] @ [packaged_row (L ''App1'') 100 0])"
    unfolding v by simp
  ultimately show ?thesis
    using h r by simp
qed

subsection \<open>The order of the rows\<close>

text \<open>
  C4. In the vector \<^verbatim>\<open>LoadConsentStore\<close> leaves, a row that is not active never comes
  before an active one, and of two rows with the same \<open>activeNow\<close> the earlier one has
  the larger or the same \<open>startFt\<close>: the vector is its active rows by descending
  start followed by its other rows by descending start.
\<close>

theorem rows_ordered_active_first_then_start_descending:
  assumes "LoadConsentStore hkcu_webcam out out'"
  shows "(\<forall>i j. i < j \<and> j < length out' \<longrightarrow>
            (activeNow (out' ! j) \<longrightarrow> activeNow (out' ! i)) \<and>
            (activeNow (out' ! i) = activeNow (out' ! j) \<longrightarrow>
               startFt (out' ! j) \<le> startFt (out' ! i))) \<and>
         out' = filter activeNow out' @ filter (\<lambda>r. \<not> activeNow r) out' \<and>
         sorted_wrt (\<lambda>a b. startFt b \<le> startFt a) (filter activeNow out') \<and>
         sorted_wrt (\<lambda>a b. startFt b \<le> startFt a) (filter (\<lambda>r. \<not> activeNow r) out')"
proof -
  have sorted: "sorted_wrt (\<lambda>a b. \<not> row_less b a) out'"
    using assms by (cases hkcu_webcam) (simp_all add: LoadConsentStore_def std_sort_post_def)
  have "\<forall>i j. i < j \<and> j < length out' \<longrightarrow>
            (activeNow (out' ! j) \<longrightarrow> activeNow (out' ! i)) \<and>
            (activeNow (out' ! i) = activeNow (out' ! j) \<longrightarrow>
               startFt (out' ! j) \<le> startFt (out' ! i))"
  proof (intro allI impI)
    fix i j
    assume "i < j \<and> j < length out'"
    then have "\<not> row_less (out' ! j) (out' ! i)"
      using LoadConsentStore_ordered [OF assms, of i j] by simp
    then show "(activeNow (out' ! j) \<longrightarrow> activeNow (out' ! i)) \<and>
               (activeNow (out' ! i) = activeNow (out' ! j) \<longrightarrow>
                  startFt (out' ! j) \<le> startFt (out' ! i))"
      by (simp add: not_row_less_iff)
  qed
  moreover have "out' = filter activeNow out' @ filter (\<lambda>r. \<not> activeNow r) out'"
    using sorted by (rule sorted_wrt_partition) (simp add: not_row_less_iff)
  moreover have "sorted_wrt (\<lambda>a b. startFt b \<le> startFt a) (filter activeNow out')"
  proof -
    have "sorted_wrt (\<lambda>a b. \<not> row_less b a) (filter activeNow out')"
      using sorted by (rule sorted_wrt_filter)
    then show ?thesis
      by (rule sorted_wrt_mono_rel [rotated]) (simp add: not_row_less_iff)
  qed
  moreover have "sorted_wrt (\<lambda>a b. startFt b \<le> startFt a) (filter (\<lambda>r. \<not> activeNow r) out')"
  proof -
    have "sorted_wrt (\<lambda>a b. \<not> row_less b a) (filter (\<lambda>r. \<not> activeNow r) out')"
      using sorted by (rule sorted_wrt_filter)
    then show ?thesis
      by (rule sorted_wrt_mono_rel [rotated]) (simp add: not_row_less_iff)
  qed
  ultimately show ?thesis by blast
qed

theorem rows_ordered_active_first_then_start_descending_witness:
  "LoadConsentStore (Some ex_webcam) [] [ex_row_app1, ex_row_desktop] \<and>
   activeNow ([ex_row_app1, ex_row_desktop] ! 0) \<and>
   \<not> activeNow ([ex_row_app1, ex_row_desktop] ! 1) \<and>
   [ex_row_app1, ex_row_desktop] =
     filter activeNow [ex_row_app1, ex_row_desktop] @
     filter (\<lambda>r. \<not> activeNow r) [ex_row_app1, ex_row_desktop] \<and>
   \<not> LoadConsentStore (Some ex_webcam) [] [ex_row_desktop, ex_row_app1]"
proof -
  have "\<not> LoadConsentStore (Some ex_webcam) [] [ex_row_desktop, ex_row_app1]"
  proof
    assume "LoadConsentStore (Some ex_webcam) [] [ex_row_desktop, ex_row_app1]"
    from rows_ordered_active_first_then_start_descending [OF this]
    have "activeNow ([ex_row_desktop, ex_row_app1] ! 1) \<longrightarrow>
          activeNow ([ex_row_desktop, ex_row_app1] ! 0)"
      by (simp add: ex_row_app1_def ex_row_desktop_def)
    then show False
      by (simp add: ex_row_app1_def ex_row_desktop_def)
  qed
  with rows_ordered_active_first_then_start_descending [OF ex_load] ex_load
  show ?thesis
    by (simp add: ex_row_app1_def ex_row_desktop_def)
qed

subsection \<open>Rows that tie\<close>

text \<open>The rank tells exactly the two keys of the comparator.\<close>

lemma sort_rank_eq_iff: "sort_rank a = sort_rank b \<longleftrightarrow> same_keys a b"
proof -
  have a: "unat (startFt a) < 2 ^ 64" and b: "unat (startFt b) < 2 ^ 64"
    using unsigned_less [of "startFt a"] unsigned_less [of "startFt b"] by simp_all
  show ?thesis
    using a b by (auto simp: sort_rank_def same_keys_def word_unat_eq_iff)
qed

lemma same_keys_rank: "same_keys a = (\<lambda>y. sort_rank y = sort_rank a)"
  by (auto simp: sort_rank_eq_iff same_keys_def)

lemma stable_sort_rows_keeps_tie_order: "keeps_tie_order rows (stable_sort_rows rows)"
  by (simp add: keeps_tie_order_def stable_sort_rows_def same_keys_rank sort_key_stable)

lemma stable_sort_rows_permitted: "std_sort_post row_less rows (stable_sort_rows rows)"
  by (simp add: stable_sort_rows_def std_sort_post_sort_key)

lemma std_sort_post_ranks:
  assumes "std_sort_post row_less xs ys"
  shows "map sort_rank ys = map sort_rank (stable_sort_rows xs)"
proof -
  have "sorted_wrt (\<lambda>a b. sort_rank a \<le> sort_rank b) ys"
    using assms by (simp add: std_sort_post_def not_row_less_rank)
  then have s: "sorted (map sort_rank ys)"
    by (simp add: sorted_map)
  have m: "mset (map sort_rank ys) = mset (map sort_rank xs)"
    using assms by (simp add: std_sort_post_def)
  have "sort (map sort_rank xs) = map sort_rank ys"
    using m s by (rule properties_for_sort)
  moreover have "sort (map sort_rank xs) = map sort_rank (sort_key sort_rank xs)"
    by (rule properties_for_sort) simp_all
  ultimately show ?thesis by (simp add: stable_sort_rows_def)
qed

lemma std_sort_post_same_keys:
  assumes "std_sort_post row_less xs ys"
  shows "list_all2 same_keys ys (stable_sort_rows xs)"
proof -
  have "list_all2 (\<lambda>a b. sort_rank a = sort_rank b) ys (stable_sort_rows xs)"
    using std_sort_post_ranks [OF assms]
    by (simp add: list_all2_conv_all_nth map_equality_iff)
  then show ?thesis by (simp add: sort_rank_eq_iff)
qed

text \<open>
  The store \<open>ex_many\<close>: thirty-two apps that never used the camera and, enumerated
  last, the app \<open>Z\<close> that is using it.
\<close>

lemma row_less_unused: "row_less (packaged_row a 0 0) (packaged_row b 0 0) = False"
  by (simp add: row_less_def packaged_row_def)

lemma row_less_used_unused:
  "row_less (packaged_row a 100 0) (packaged_row b 0 0) = True"
  "row_less (packaged_row a 0 0) (packaged_row b 100 0) = False"
  "row_less (packaged_row a 100 0) (packaged_row b 100 0) = False"
  by (simp_all add: row_less_def packaged_row_def)

lemma same_keys_unused: "same_keys (packaged_row a 0 0) (packaged_row b 0 0)"
  by (simp add: same_keys_def packaged_row_def)

lemma not_same_keys_used: "\<not> same_keys (packaged_row a 0 0) (packaged_row b 100 0)"
  by (simp add: same_keys_def packaged_row_def)

lemma ex_many_enum:
  "enum_base (subkeys ex_many) [] =
     unused_rows (L ''0123456ABCDEFGHIJKLMNOPQRSTUVWXY'') @ [packaged_row (L ''Z'') 100 0]"
  by (simp add: ex_many_def ex_app1_def unused_rows_def wcsicmp_eq_def towlower_C_def L_def
      read_start_def read_stop_def RegGetQword_def RegGetValueW_QWORD_def)

text \<open>
  The run of \<^verbatim>\<open>std::sort\<close> of libstdc++ on its rows. The range has more than 16
  elements, so it is partitioned: the median step swaps the first row with the one
  in the middle, the partition swaps the second row with the last, the third with
  the last but one and so on, and the lower part is partitioned once more before
  the insertion sort runs.
\<close>

lemma libstdcxx_sort_many:
  "libstdcxx_sort row_less
     (unused_rows (L ''0123456ABCDEFGHIJKLMNOPQRSTUVWXY'') @ [packaged_row (L ''Z'') 100 0]) =
   Some (packaged_row (L ''Z'') 100 0 # unused_rows (L ''KJLMNOPQRSTUVWXY0IHGFEDCBA654321''))"
  by (simp add: unused_rows_def L_def libstdcxx_sort_def introsort_loop.simps std_lg.simps
      unguarded_partition_pivot_def move_median_to_first_def iter_swap_def
      unguarded_partition.simps scan_up.simps scan_down.simps final_insertion_sort_def
      insertion_sort_def insertion_sort_from.simps unguarded_linear_insert.simps
      unguarded_insertion_sort.simps move_backward_insert_def row_less_unused
      row_less_used_unused Let_def)

lemma packaged_row_name_inject: "packaged_row a s t = packaged_row b s t \<longleftrightarrow> a = b"
  by (auto simp: packaged_row_def)

lemma ex_many_permitted:
  "std_sort_post row_less
     (unused_rows (L ''0123456ABCDEFGHIJKLMNOPQRSTUVWXY'') @ [packaged_row (L ''Z'') 100 0])
     (packaged_row (L ''Z'') 100 0 # unused_rows (L ''KJLMNOPQRSTUVWXY0IHGFEDCBA654321''))"
proof -
  have "mset (L ''KJLMNOPQRSTUVWXY0IHGFEDCBA654321'') = mset (L ''0123456ABCDEFGHIJKLMNOPQRSTUVWXY'')"
    by (simp add: L_def)
  then have "mset (unused_rows (L ''KJLMNOPQRSTUVWXY0IHGFEDCBA654321'')) =
      mset (unused_rows (L ''0123456ABCDEFGHIJKLMNOPQRSTUVWXY''))"
    by (simp add: unused_rows_def)
  moreover have "sorted_wrt (\<lambda>a b. \<not> row_less b a)
      (packaged_row z 100 0 # unused_rows names)" for z names
    by (simp add: unused_rows_def sorted_wrt_map row_less_unused row_less_used_unused)
  ultimately show ?thesis by (simp add: std_sort_post_def)
qed

lemma filter_ties_unused:
  "filter (same_keys (packaged_row a 0 0)) (unused_rows names) = unused_rows names"
  by (simp add: unused_rows_def filter_map comp_def same_keys_unused)

lemma ex_many_reordered:
  "\<not> keeps_tie_order
       (unused_rows (L ''0123456ABCDEFGHIJKLMNOPQRSTUVWXY'') @ [packaged_row (L ''Z'') 100 0])
       (packaged_row (L ''Z'') 100 0 # unused_rows (L ''KJLMNOPQRSTUVWXY0IHGFEDCBA654321''))"
proof
  assume "keeps_tie_order
       (unused_rows (L ''0123456ABCDEFGHIJKLMNOPQRSTUVWXY'') @ [packaged_row (L ''Z'') 100 0])
       (packaged_row (L ''Z'') 100 0 # unused_rows (L ''KJLMNOPQRSTUVWXY0IHGFEDCBA654321''))"
  moreover have "packaged_row (L ''0'') 0 0
      \<in> set (unused_rows (L ''0123456ABCDEFGHIJKLMNOPQRSTUVWXY'') @ [packaged_row (L ''Z'') 100 0])"
    by (simp add: unused_rows_def L_def)
  ultimately have "filter (same_keys (packaged_row (L ''0'') 0 0))
        (packaged_row (L ''Z'') 100 0 # unused_rows (L ''KJLMNOPQRSTUVWXY0IHGFEDCBA654321'')) =
      filter (same_keys (packaged_row (L ''0'') 0 0))
        (unused_rows (L ''0123456ABCDEFGHIJKLMNOPQRSTUVWXY'') @ [packaged_row (L ''Z'') 100 0])"
    unfolding keeps_tie_order_def by (rule bspec)
  then have "unused_rows (L ''KJLMNOPQRSTUVWXY0IHGFEDCBA654321'') =
      unused_rows (L ''0123456ABCDEFGHIJKLMNOPQRSTUVWXY'')"
    by (simp add: filter_ties_unused not_same_keys_used)
  then have "hd (unused_rows (L ''KJLMNOPQRSTUVWXY0IHGFEDCBA654321'')) =
      hd (unused_rows (L ''0123456ABCDEFGHIJKLMNOPQRSTUVWXY''))"
    by simp
  then show False
    by (simp add: unused_rows_def L_def packaged_row_name_inject)
qed

text \<open>On the two tied rows of \<open>ex_ties\<close> the same sort moves nothing.\<close>

lemma libstdcxx_sort_two_rows:
  "libstdcxx_sort row_less [ex_row_A, ex_row_B] = Some [ex_row_A, ex_row_B]"
  by (simp add: libstdcxx_sort_def introsort_loop.simps final_insertion_sort_def
      insertion_sort_def insertion_sort_from.simps unguarded_linear_insert.simps
      row_less_def ex_row_A_def ex_row_B_def Let_def)

text \<open>
  C2, as the specification states it, fails: the sort is \<^verbatim>\<open>std::sort\<close>, which does
  not keep rows that tie in their order. The store \<open>ex_many\<close> holds thirty-three
  apps: \<open>0\<close> to \<open>6\<close> and \<open>A\<close> to \<open>Y\<close> never used the camera, \<open>Z\<close> is using it. The
  loop collects their rows in this order, and \<^verbatim>\<open>std::sort\<close> of GNU libstdc++ leaves
  \<open>Z\<close> first and after it the thirty-two tied rows in the order
  \<open>K J L M N O P Q R S T U V W X Y 0 I H G F E D C B A 6 5 4 3 2 1\<close>.
\<close>

theorem sort_reorders_tied_rows_counterexample:
  "enum_base (subkeys ex_many) [] =
     unused_rows (L ''0123456ABCDEFGHIJKLMNOPQRSTUVWXY'') @ [packaged_row (L ''Z'') 100 0] \<and>
   libstdcxx_sort row_less (enum_base (subkeys ex_many) []) =
     Some (packaged_row (L ''Z'') 100 0 # unused_rows (L ''KJLMNOPQRSTUVWXY0IHGFEDCBA654321'')) \<and>
   LoadConsentStore (Some ex_many) []
     (packaged_row (L ''Z'') 100 0 # unused_rows (L ''KJLMNOPQRSTUVWXY0IHGFEDCBA654321'')) \<and>
   \<not> keeps_tie_order (enum_base (subkeys ex_many) [])
       (packaged_row (L ''Z'') 100 0 # unused_rows (L ''KJLMNOPQRSTUVWXY0IHGFEDCBA654321''))"
  using ex_many_permitted ex_many_reordered
  by (simp add: ex_many_enum libstdcxx_sort_many LoadConsentStore_def)

text \<open>
  C2, amended. The sort is stable up to the order of rows that tie. Whatever
  \<^verbatim>\<open>std::sort\<close> the program is built with, the vector it leaves has at every position
  the \<open>activeNow\<close> and the \<open>startFt\<close> that a stable sort of the collected rows has
  there, and for every row the rows that tie with it are the same as in the rows
  collected, each as often. The order of tied rows among themselves is the choice of
  the library; the stable order is one of the results permitted.
\<close>

theorem sort_stable_up_to_ties:
  assumes "LoadConsentStore (Some hBase) out out'"
  shows "list_all2 same_keys out' (stable_sort_rows (enum_base (subkeys hBase) [])) \<and>
         mset (filter (same_keys a) out') =
           mset (filter (same_keys a) (enum_base (subkeys hBase) [])) \<and>
         keeps_tie_order (enum_base (subkeys hBase) [])
           (stable_sort_rows (enum_base (subkeys hBase) [])) \<and>
         LoadConsentStore (Some hBase) out (stable_sort_rows (enum_base (subkeys hBase) []))"
proof -
  from assms have post: "std_sort_post row_less (enum_base (subkeys hBase) []) out'"
    by (simp add: LoadConsentStore_def)
  then have "list_all2 same_keys out' (stable_sort_rows (enum_base (subkeys hBase) []))"
    by (rule std_sort_post_same_keys)
  moreover from post have "mset (filter (same_keys a) out') =
           mset (filter (same_keys a) (enum_base (subkeys hBase) []))"
    by (simp add: std_sort_post_def)
  moreover have "LoadConsentStore (Some hBase) out
      (stable_sort_rows (enum_base (subkeys hBase) []))"
    by (simp add: LoadConsentStore_def stable_sort_rows_permitted)
  ultimately show ?thesis
    using stable_sort_rows_keeps_tie_order by blast
qed

theorem sort_stable_up_to_ties_witness:
  "LoadConsentStore (Some ex_many) []
     (packaged_row (L ''Z'') 100 0 # unused_rows (L ''KJLMNOPQRSTUVWXY0IHGFEDCBA654321'')) \<and>
   list_all2 same_keys
     (packaged_row (L ''Z'') 100 0 # unused_rows (L ''KJLMNOPQRSTUVWXY0IHGFEDCBA654321''))
     (stable_sort_rows (enum_base (subkeys ex_many) [])) \<and>
   mset (unused_rows (L ''KJLMNOPQRSTUVWXY0IHGFEDCBA654321'')) =
     mset (unused_rows (L ''0123456ABCDEFGHIJKLMNOPQRSTUVWXY'')) \<and>
   keeps_tie_order (enum_base (subkeys ex_many) [])
     (stable_sort_rows (enum_base (subkeys ex_many) []))"
proof -
  have load: "LoadConsentStore (Some ex_many) []
     (packaged_row (L ''Z'') 100 0 # unused_rows (L ''KJLMNOPQRSTUVWXY0IHGFEDCBA654321''))"
    using ex_many_permitted by (simp add: LoadConsentStore_def ex_many_enum)
  from sort_stable_up_to_ties [OF load, of "packaged_row (L ''0'') 0 0"]
  have "list_all2 same_keys
     (packaged_row (L ''Z'') 100 0 # unused_rows (L ''KJLMNOPQRSTUVWXY0IHGFEDCBA654321''))
     (stable_sort_rows (enum_base (subkeys ex_many) []))"
    and "mset (filter (same_keys (packaged_row (L ''0'') 0 0))
            (packaged_row (L ''Z'') 100 0 # unused_rows (L ''KJLMNOPQRSTUVWXY0IHGFEDCBA654321''))) =
         mset (filter (same_keys (packaged_row (L ''0'') 0 0)) (enum_base (subkeys ex_many) []))"
    and "keeps_tie_order (enum_base (subkeys ex_many) [])
     (stable_sort_rows (enum_base (subkeys ex_many) []))"
    by blast+
  then show ?thesis
    using load by (simp add: ex_many_enum filter_ties_unused not_same_keys_used)
qed

subsection \<open>Showing the rows\<close>

lemma Yes_neq_No: "L ''Yes'' \<noteq> L ''No''"
  by (simp add: L_def)

lemma row_item_active: "row_item api r ! 3 = L ''Yes'' \<longleftrightarrow> activeNow r"
  using Yes_neq_No by (auto simp: row_item_def numeral_3_eq_3)

text \<open>
  C5. For every vector of rows, sorted or not, \<^verbatim>\<open>ListView_Populate\<close> shows with
  \<open>currentOnly\<close> unset one item for each row, in the order of the vector, and with
  \<open>currentOnly\<close> set the items of the active rows only, in the same order: a
  subsequence of the former, namely its items that say \<open>Yes\<close> in the Active column.
\<close>

theorem current_only_is_active_subsequence:
  "ListView_Populate api hList src False = Some (map (row_item api) src) \<and>
   ListView_Populate api hList src True = Some (map (row_item api) (filter activeNow src)) \<and>
   subseq (map (row_item api) (filter activeNow src)) (map (row_item api) src) \<and>
   map (row_item api) (filter activeNow src) =
     filter (\<lambda>item. item ! 3 = L ''Yes'') (map (row_item api) src)"
proof (intro conjI)
  show "map (row_item api) (filter activeNow src) =
          filter (\<lambda>item. item ! 3 = L ''Yes'') (map (row_item api) src)"
    by (simp add: filter_map comp_def row_item_active)
  show "subseq (map (row_item api) (filter activeNow src)) (map (row_item api) src)"
    by (simp add: subseq_map)
qed (simp_all add: ListView_Populate_eq)

theorem current_only_is_active_subsequence_witness:
  "ListView_Populate ex_api [] [ex_row_app1, ex_row_desktop] False =
     Some [row_item ex_api ex_row_app1, row_item ex_api ex_row_desktop] \<and>
   ListView_Populate ex_api [] [ex_row_app1, ex_row_desktop] True =
     Some [row_item ex_api ex_row_app1] \<and>
   row_item ex_api ex_row_app1 =
     [L ''Packaged'', L ''App1'', [], L ''Yes'', L ''2024-03-05 07:08:09'', []]"
proof -
  have "row_item ex_api ex_row_app1 =
     [L ''Packaged'', L ''App1'', [], L ''Yes'', L ''2024-03-05 07:08:09'', []]"
    by (simp add: row_item_def ex_row_app1_def ft_text_def ex_api_def fmt_datetime_def
        fmt_0u_def dec_digits.simps L_def)
  with current_only_is_active_subsequence [of ex_api "[]" "[ex_row_app1, ex_row_desktop]"]
  show ?thesis
    by (simp add: ex_row_app1_def ex_row_desktop_def)
qed

text \<open>
  C6. When the webcam key does not open, \<^verbatim>\<open>LoadConsentStore\<close> leaves the vector
  empty whatever it held before, and signals no error; the list view filled from an
  empty vector is empty for either setting of \<open>currentOnly\<close>.
\<close>

theorem root_open_failure_gives_empty:
  "LoadConsentStore None out out' = (out' = []) \<and>
   ListView_Populate api hList [] currentOnly = Some []"
  by (simp add: LoadConsentStore_def ListView_Populate_eq)

theorem root_open_failure_gives_empty_witness:
  "LoadConsentStore None [ex_row_app1, ex_row_desktop] [] \<and>
   \<not> LoadConsentStore None [ex_row_app1, ex_row_desktop] [ex_row_app1, ex_row_desktop] \<and>
   ListView_Populate ex_api [row_item ex_api ex_row_app1] [] True = Some []"
  using root_open_failure_gives_empty [of "[ex_row_app1, ex_row_desktop]" "[]" ex_api
      "[row_item ex_api ex_row_app1]" True]
    root_open_failure_gives_empty [of "[ex_row_app1, ex_row_desktop]"
      "[ex_row_app1, ex_row_desktop]" ex_api "[]" True]
  by simp

subsection \<open>Timestamps as text\<close>

lemma dec_value_snoc: "dec_value (ds @ [c]) = 10 * dec_value ds + unat (c - 0x30)"
  by (simp add: dec_value_def)

lemma digit_value: "d < 10 \<Longrightarrow> unat ((0x30 :: wchar_t) + of_nat d - 0x30) = d"
  by (simp add: unat_of_nat)

lemma dec_value_dec_digits: "dec_value (dec_digits n) = n"
proof (induction n rule: dec_digits.induct)
  case (1 n)
  show ?case
  proof (cases "n < 10")
    case True
    then show ?thesis
      using dec_value_snoc [of "[]" "0x30 + of_nat n"] digit_value [of n]
      by (simp add: dec_digits.simps [of n] dec_value_def)
  next
    case False
    then have "dec_value (dec_digits n) = 10 * (n div 10) + n mod 10"
      using "1.IH" digit_value [of "n mod 10"]
      by (simp add: dec_digits.simps [of n] dec_value_snoc)
    then show ?thesis by simp
  qed
qed

lemma dec_value_zeros: "dec_value (replicate k 0x30 @ ds) = dec_value ds"
proof -
  have "foldl (\<lambda>acc c. 10 * acc + unat (c - 0x30)) 0 (replicate k (0x30 :: wchar_t)) = 0"
    by (induction k) simp_all
  then show ?thesis by (simp add: dec_value_def)
qed

lemma dec_value_fmt_0u: "dec_value (fmt_0u width n) = n"
  by (simp add: fmt_0u_def dec_value_zeros dec_value_dec_digits)

lemma ft_text_cases:
  "ft_text api 0 = []"
  "ft \<noteq> 0 \<Longrightarrow>
   FileTimeToSystemTime api \<lparr> dwLowDateTime = ucast (ft AND 0xFFFFFFFF),
                              dwHighDateTime = ucast (drop_bit 32 ft) \<rparr> = None \<Longrightarrow>
   ft_text api ft = []"
  "ft \<noteq> 0 \<Longrightarrow>
   FileTimeToSystemTime api \<lparr> dwLowDateTime = ucast (ft AND 0xFFFFFFFF),
                              dwHighDateTime = ucast (drop_bit 32 ft) \<rparr> = Some stUtc \<Longrightarrow>
   SystemTimeToTzSpecificLocalTime api stUtc = None \<Longrightarrow>
   ft_text api ft = []"
  "ft \<noteq> 0 \<Longrightarrow>
   FileTimeToSystemTime api \<lparr> dwLowDateTime = ucast (ft AND 0xFFFFFFFF),
                              dwHighDateTime = ucast (drop_bit 32 ft) \<rparr> = Some stUtc \<Longrightarrow>
   SystemTimeToTzSpecificLocalTime api stUtc = Some stLocal \<Longrightarrow>
   ft_text api ft = fmt_datetime stLocal"
  by (simp_all add: ft_text_def)

lemma length_dec_digits_lower: "10 ^ k \<le> n \<Longrightarrow> k < length (dec_digits n)"
proof (induction k arbitrary: n)
  case 0
  show ?case by (subst dec_digits.simps) simp
next
  case (Suc k)
  have big: "10 * 10 ^ k \<le> n" using Suc.prems by simp
  have "(1 :: nat) \<le> 10 ^ k" by simp
  with big have ten: "\<not> n < 10" by linarith
  from big have "10 ^ k \<le> n div 10" by linarith
  from Suc.IH [OF this] ten show ?case
    by (simp add: dec_digits.simps [of n])
qed

lemma length_fmt_0u_ge: "width \<le> length (fmt_0u width n)"
  by (simp add: length_fmt_0u)

lemma length_year_10000:
  "10000 \<le> unat (y :: WORD) \<Longrightarrow> length (fmt_0u 4 (unat y)) = 5"
  using length_dec_digits_lower [of 4 "unat y"] length_fmt_0u_WORD [of 4 y]
  by (simp add: length_fmt_0u)

lemma fmt_0u_digits: "list_all is_digit (fmt_0u width n)"
  using fmt_0u_chars [of width n] by (auto simp: list_all_iff is_digit_def)

lemma date_time_text_parts:
  assumes "length y = 4" "length mo = 2" "length d = 2" "length h = 2" "length mi = 2"
    "length se = 2"
    and "list_all is_digit y" "list_all is_digit mo" "list_all is_digit d"
    "list_all is_digit h" "list_all is_digit mi" "list_all is_digit se"
  shows "is_date_time_text (y @ L ''-'' @ mo @ L ''-'' @ d @ L '' '' @ h @ L '':'' @ mi
           @ L '':'' @ se)"
  using assms by (simp add: is_date_time_text_def L_def nth_append)

lemma fmt_datetime_in_range:
  assumes "unat (wYear st) < 10000" "unat (wMonth st) < 100" "unat (wDay st) < 100"
    "unat (wHour st) < 100" "unat (wMinute st) < 100" "unat (wSecond st) < 100"
  shows "is_date_time_text (fmt_datetime st)"
  unfolding fmt_datetime_def
proof (rule date_time_text_parts)
  show "length (fmt_0u 4 (unat (wYear st))) = 4"
    using assms(1) by (simp add: length_fmt_0u_exact)
  show "length (fmt_0u 2 (unat (wMonth st))) = 2"
    using assms(2) by (simp add: length_fmt_0u_exact)
  show "length (fmt_0u 2 (unat (wDay st))) = 2"
    using assms(3) by (simp add: length_fmt_0u_exact)
  show "length (fmt_0u 2 (unat (wHour st))) = 2"
    using assms(4) by (simp add: length_fmt_0u_exact)
  show "length (fmt_0u 2 (unat (wMinute st))) = 2"
    using assms(5) by (simp add: length_fmt_0u_exact)
  show "length (fmt_0u 2 (unat (wSecond st))) = 2"
    using assms(6) by (simp add: length_fmt_0u_exact)
qed (rule fmt_0u_digits)+

lemma length_fmt_datetime_year_10000:
  assumes "10000 \<le> unat (wYear st)"
  shows "20 \<le> length (fmt_datetime st)"
proof -
  have "length (fmt_datetime st) =
      length (fmt_0u 4 (unat (wYear st))) + length (fmt_0u 2 (unat (wMonth st)))
      + length (fmt_0u 2 (unat (wDay st))) + length (fmt_0u 2 (unat (wHour st)))
      + length (fmt_0u 2 (unat (wMinute st))) + length (fmt_0u 2 (unat (wSecond st))) + 5"
    by (simp add: fmt_datetime_def L_def)
  then show ?thesis
    using length_year_10000 [OF assms] length_fmt_0u_ge [of 2 "unat (wMonth st)"]
      length_fmt_0u_ge [of 2 "unat (wDay st)"] length_fmt_0u_ge [of 2 "unat (wHour st)"]
      length_fmt_0u_ge [of 2 "unat (wMinute st)"] length_fmt_0u_ge [of 2 "unat (wSecond st)"]
    by linarith
qed

lemma fmt_datetime_year_10000:
  assumes "10000 \<le> unat (wYear st)"
  shows "\<not> is_date_time_text (fmt_datetime st)"
  using length_fmt_datetime_year_10000 [OF assms] by (simp add: is_date_time_text_def)

text \<open>The UTC interface at three timestamps.\<close>

lemma civil_from_days_known_dates:
  "civil_from_days 0 = (1601, 1, 1)"
  "civil_from_days 134774 = (1970, 1, 1)"
  "civil_from_days 145790 = (2000, 2, 29)"
  "civil_from_days 182315 = (2100, 3, 1)"
  "civil_from_days 3067670 = (9999, 12, 31)"
  by (simp_all add: civil_from_days_def month_lengths_def Let_def)

lemma civil_y10k: "civil_from_days 3067671 = (10000, 1, 1)"
  by (simp add: civil_from_days_def month_lengths_def Let_def)

lemma split_y10k:
  "\<lparr> dwLowDateTime = ucast ((2650467744000000000 :: ULONGLONG) AND 0xFFFFFFFF),
     dwHighDateTime = ucast (drop_bit 32 (2650467744000000000 :: ULONGLONG)) \<rparr> =
   \<lparr> dwLowDateTime = 3519037440, dwHighDateTime = 617110110 \<rparr>"
  by simp

lemma ticks_y10k:
  "filetime_ticks \<lparr> dwLowDateTime = 3519037440, dwHighDateTime = 617110110 \<rparr> =
     2650467744000000000"
  by (simp add: filetime_ticks_def)

lemma conv_y10k:
  "FileTimeToSystemTime_utc \<lparr> dwLowDateTime = 3519037440, dwHighDateTime = 617110110 \<rparr> =
     Some \<lparr> wYear = 10000, wMonth = 1, wDayOfWeek = 6, wDay = 1, wHour = 0, wMinute = 0,
            wSecond = 0, wMilliseconds = 0 \<rparr>"
  by (simp add: FileTimeToSystemTime_utc_def ticks_y10k civil_y10k)

lemma fmt_y10k:
  "fmt_datetime \<lparr> wYear = 10000, wMonth = 1, wDayOfWeek = 6, wDay = 1, wHour = 0, wMinute = 0,
            wSecond = 0, wMilliseconds = 0 \<rparr> = L ''10000-01-01 00:00:00''"
  by (simp add: fmt_datetime_def fmt_0u_def dec_digits.simps L_def)

lemma civil_2024: "civil_from_days 154561 = (2024, 3, 5)"
  by (simp add: civil_from_days_def month_lengths_def Let_def)

lemma split_2024:
  "\<lparr> dwLowDateTime = ucast ((133540960890000000 :: ULONGLONG) AND 0xFFFFFFFF),
     dwHighDateTime = ucast (drop_bit 32 (133540960890000000 :: ULONGLONG)) \<rparr> =
   \<lparr> dwLowDateTime = 3771732608, dwHighDateTime = 31092427 \<rparr>"
  by simp

lemma ticks_2024:
  "filetime_ticks \<lparr> dwLowDateTime = 3771732608, dwHighDateTime = 31092427 \<rparr> =
     133540960890000000"
  by (simp add: filetime_ticks_def)

lemma conv_2024:
  "FileTimeToSystemTime_utc \<lparr> dwLowDateTime = 3771732608, dwHighDateTime = 31092427 \<rparr> =
     Some \<lparr> wYear = 2024, wMonth = 3, wDayOfWeek = 2, wDay = 5, wHour = 7, wMinute = 8,
            wSecond = 9, wMilliseconds = 0 \<rparr>"
  by (simp add: FileTimeToSystemTime_utc_def ticks_2024 civil_2024)

lemma fmt_2024:
  "fmt_datetime \<lparr> wYear = 2024, wMonth = 3, wDayOfWeek = 2, wDay = 5, wHour = 7, wMinute = 8,
            wSecond = 9, wMilliseconds = 0 \<rparr> = L ''2024-03-05 07:08:09''"
  by (simp add: fmt_datetime_def fmt_0u_def dec_digits.simps L_def)

lemma split_top_bit:
  "\<lparr> dwLowDateTime = ucast ((0x8000000000000000 :: ULONGLONG) AND 0xFFFFFFFF),
     dwHighDateTime = ucast (drop_bit 32 (0x8000000000000000 :: ULONGLONG)) \<rparr> =
   \<lparr> dwLowDateTime = 0, dwHighDateTime = 0x80000000 \<rparr>"
  by simp

lemma conv_top_bit:
  "FileTimeToSystemTime_utc \<lparr> dwLowDateTime = 0, dwHighDateTime = 0x80000000 \<rparr> = None"
  by (simp add: FileTimeToSystemTime_utc_def)

text \<open>
  C9, as the specification states it, fails in one point: not every timestamp that
  converts is shown as \<^verbatim>\<open>YYYY-MM-DD HH:MM:SS\<close>. The format asks for at least four
  digits of the year and prints more when the year needs them. The timestamp
  2650467744000000000 is 1 January 10000, 00:00:00 UTC, and a viewer in UTC is shown
  twenty characters for it.
\<close>

theorem year_10000_text_counterexample:
  "(2650467744000000000 :: ULONGLONG) \<noteq> 0 \<and>
   FtToLocalString utc_api 2650467744000000000 = Some (L ''10000-01-01 00:00:00'') \<and>
   \<not> is_date_time_text (L ''10000-01-01 00:00:00'')"
proof -
  have "FtToLocalString utc_api 2650467744000000000 = Some (L ''10000-01-01 00:00:00'')"
    unfolding FtToLocalString_def split_y10k
    by (simp add: utc_api_def conv_y10k fmt_y10k swprintf_s_def L_def)
  moreover have "\<not> is_date_time_text (L ''10000-01-01 00:00:00'')"
    by (simp add: is_date_time_text_def L_def)
  ultimately show ?thesis by simp
qed

text \<open>
  C9, amended. \<^verbatim>\<open>FtToLocalString\<close> always returns: the text it prints is at most 35
  characters and fits its buffer of 64, so the list view is always filled. It
  returns the empty string for the timestamp 0 and for a timestamp that either
  conversion of the operating system rejects, and otherwise the six fields of the
  local time printed with \<^verbatim>\<open>%04u-%02u-%02u %02u:%02u:%02u\<close>, where a field below
  \<open>10 ^ width\<close> is exactly \<open>width\<close> decimal digits that denote it. That text has the
  form \<^verbatim>\<open>YYYY-MM-DD HH:MM:SS\<close> when the local year is below 10000 (and the other
  fields have at most two digits, as those of a calendar time have); from the year
  10000 on it has not. A record with start 0 and stop 0 is shown inactive with both
  timestamp columns empty.
\<close>

theorem timestamp_text_total:
  "FtToLocalString api ft \<noteq> None \<and>
   ListView_Populate api hList src currentOnly \<noteq> None \<and>
   FtToLocalString api 0 = Some [] \<and>
   (ft \<noteq> 0 \<and>
    FileTimeToSystemTime api \<lparr> dwLowDateTime = ucast (ft AND 0xFFFFFFFF),
                               dwHighDateTime = ucast (drop_bit 32 ft) \<rparr> = None \<longrightarrow>
      FtToLocalString api ft = Some []) \<and>
   (ft \<noteq> 0 \<and>
    FileTimeToSystemTime api \<lparr> dwLowDateTime = ucast (ft AND 0xFFFFFFFF),
                               dwHighDateTime = ucast (drop_bit 32 ft) \<rparr> = Some stUtc \<and>
    SystemTimeToTzSpecificLocalTime api stUtc = None \<longrightarrow>
      FtToLocalString api ft = Some []) \<and>
   (ft \<noteq> 0 \<and>
    FileTimeToSystemTime api \<lparr> dwLowDateTime = ucast (ft AND 0xFFFFFFFF),
                               dwHighDateTime = ucast (drop_bit 32 ft) \<rparr> = Some stUtc \<and>
    SystemTimeToTzSpecificLocalTime api stUtc = Some stLocal \<longrightarrow>
      FtToLocalString api ft =
        Some (fmt_0u 4 (unat (wYear stLocal)) @ L ''-'' @ fmt_0u 2 (unat (wMonth stLocal))
              @ L ''-'' @ fmt_0u 2 (unat (wDay stLocal)) @ L '' ''
              @ fmt_0u 2 (unat (wHour stLocal)) @ L '':''
              @ fmt_0u 2 (unat (wMinute stLocal)) @ L '':''
              @ fmt_0u 2 (unat (wSecond stLocal))) \<and>
      (unat (wYear stLocal) < 10000 \<and> unat (wMonth stLocal) < 100 \<and>
       unat (wDay stLocal) < 100 \<and> unat (wHour stLocal) < 100 \<and>
       unat (wMinute stLocal) < 100 \<and> unat (wSecond stLocal) < 100 \<longrightarrow>
         (\<exists>s. FtToLocalString api ft = Some s \<and> is_date_time_text s)) \<and>
      (10000 \<le> unat (wYear stLocal) \<longrightarrow>
         (\<exists>s. FtToLocalString api ft = Some s \<and> \<not> is_date_time_text s))) \<and>
   (0 < width \<and> n < 10 ^ width \<longrightarrow>
      length (fmt_0u width n) = width \<and> set (fmt_0u width n) \<subseteq> {0x30 .. 0x39} \<and>
      dec_value (fmt_0u width n) = n) \<and>
   \<not> activeNow (packaged_row subkey 0 0) \<and> \<not> activeNow (desktop_row n2 0 0) \<and>
   ListView_Populate api hList [packaged_row subkey 0 0] False =
     Some [[L ''Packaged'', subkey, [], L ''No'', [], []]] \<and>
   ListView_Populate api hList [desktop_row n2 0 0] False =
     Some [[L ''Desktop'', LeafName (ReplaceAll n2 HASH BACKSLASH),
            ReplaceAll n2 HASH BACKSLASH, L ''No'', [], []]]"
proof (intro conjI)
  show "FtToLocalString api ft \<noteq> None"
    by (simp add: FtToLocalString_total)
  show "ListView_Populate api hList src currentOnly \<noteq> None"
    by (simp add: ListView_Populate_eq)
  show "FtToLocalString api 0 = Some []"
    by (simp add: FtToLocalString_total ft_text_cases)
  show "ft \<noteq> 0 \<and>
    FileTimeToSystemTime api \<lparr> dwLowDateTime = ucast (ft AND 0xFFFFFFFF),
                               dwHighDateTime = ucast (drop_bit 32 ft) \<rparr> = None \<longrightarrow>
      FtToLocalString api ft = Some []"
    by (simp add: FtToLocalString_total ft_text_cases)
  show "ft \<noteq> 0 \<and>
    FileTimeToSystemTime api \<lparr> dwLowDateTime = ucast (ft AND 0xFFFFFFFF),
                               dwHighDateTime = ucast (drop_bit 32 ft) \<rparr> = Some stUtc \<and>
    SystemTimeToTzSpecificLocalTime api stUtc = None \<longrightarrow>
      FtToLocalString api ft = Some []"
    by (simp add: FtToLocalString_total ft_text_cases)
  show "ft \<noteq> 0 \<and>
    FileTimeToSystemTime api \<lparr> dwLowDateTime = ucast (ft AND 0xFFFFFFFF),
                               dwHighDateTime = ucast (drop_bit 32 ft) \<rparr> = Some stUtc \<and>
    SystemTimeToTzSpecificLocalTime api stUtc = Some stLocal \<longrightarrow>
      FtToLocalString api ft =
        Some (fmt_0u 4 (unat (wYear stLocal)) @ L ''-'' @ fmt_0u 2 (unat (wMonth stLocal))
              @ L ''-'' @ fmt_0u 2 (unat (wDay stLocal)) @ L '' ''
              @ fmt_0u 2 (unat (wHour stLocal)) @ L '':''
              @ fmt_0u 2 (unat (wMinute stLocal)) @ L '':''
              @ fmt_0u 2 (unat (wSecond stLocal))) \<and>
      (unat (wYear stLocal) < 10000 \<and> unat (wMonth stLocal) < 100 \<and>
       unat (wDay stLocal) < 100 \<and> unat (wHour stLocal) < 100 \<and>
       unat (wMinute stLocal) < 100 \<and> unat (wSecond stLocal) < 100 \<longrightarrow>
         (\<exists>s. FtToLocalString api ft = Some s \<and> is_date_time_text s)) \<and>
      (10000 \<le> unat (wYear stLocal) \<longrightarrow>
         (\<exists>s. FtToLocalString api ft = Some s \<and> \<not> is_date_time_text s))"
  proof (intro impI, elim conjE)
    assume conv: "ft \<noteq> 0"
      "FileTimeToSystemTime api \<lparr> dwLowDateTime = ucast (ft AND 0xFFFFFFFF),
                                  dwHighDateTime = ucast (drop_bit 32 ft) \<rparr> = Some stUtc"
      "SystemTimeToTzSpecificLocalTime api stUtc = Some stLocal"
    have printed: "FtToLocalString api ft = Some (fmt_datetime stLocal)"
      using conv by (simp add: FtToLocalString_total ft_text_cases)
    show "FtToLocalString api ft =
        Some (fmt_0u 4 (unat (wYear stLocal)) @ L ''-'' @ fmt_0u 2 (unat (wMonth stLocal))
              @ L ''-'' @ fmt_0u 2 (unat (wDay stLocal)) @ L '' ''
              @ fmt_0u 2 (unat (wHour stLocal)) @ L '':''
              @ fmt_0u 2 (unat (wMinute stLocal)) @ L '':''
              @ fmt_0u 2 (unat (wSecond stLocal))) \<and>
      (unat (wYear stLocal) < 10000 \<and> unat (wMonth stLocal) < 100 \<and>
       unat (wDay stLocal) < 100 \<and> unat (wHour stLocal) < 100 \<and>
       unat (wMinute stLocal) < 100 \<and> unat (wSecond stLocal) < 100 \<longrightarrow>
         (\<exists>s. FtToLocalString api ft = Some s \<and> is_date_time_text s)) \<and>
      (10000 \<le> unat (wYear stLocal) \<longrightarrow>
         (\<exists>s. FtToLocalString api ft = Some s \<and> \<not> is_date_time_text s))"
    proof (intro conjI impI)
      show "FtToLocalString api ft =
        Some (fmt_0u 4 (unat (wYear stLocal)) @ L ''-'' @ fmt_0u 2 (unat (wMonth stLocal))
              @ L ''-'' @ fmt_0u 2 (unat (wDay stLocal)) @ L '' ''
              @ fmt_0u 2 (unat (wHour stLocal)) @ L '':''
              @ fmt_0u 2 (unat (wMinute stLocal)) @ L '':''
              @ fmt_0u 2 (unat (wSecond stLocal)))"
        unfolding printed fmt_datetime_def ..
    next
      assume "unat (wYear stLocal) < 10000 \<and> unat (wMonth stLocal) < 100 \<and>
       unat (wDay stLocal) < 100 \<and> unat (wHour stLocal) < 100 \<and>
       unat (wMinute stLocal) < 100 \<and> unat (wSecond stLocal) < 100"
      then have "is_date_time_text (fmt_datetime stLocal)"
        by (intro fmt_datetime_in_range) simp_all
      with printed show "\<exists>s. FtToLocalString api ft = Some s \<and> is_date_time_text s"
        by blast
    next
      assume "10000 \<le> unat (wYear stLocal)"
      then have "\<not> is_date_time_text (fmt_datetime stLocal)"
        by (rule fmt_datetime_year_10000)
      with printed show "\<exists>s. FtToLocalString api ft = Some s \<and> \<not> is_date_time_text s"
        by blast
    qed
  qed
  show "0 < width \<and> n < 10 ^ width \<longrightarrow>
      length (fmt_0u width n) = width \<and> set (fmt_0u width n) \<subseteq> {0x30 .. 0x39} \<and>
      dec_value (fmt_0u width n) = n"
    using fmt_0u_chars [of width n]
    by (simp add: length_fmt_0u_exact dec_value_fmt_0u)
  show "\<not> activeNow (packaged_row subkey 0 0)" "\<not> activeNow (desktop_row n2 0 0)"
    by (simp_all add: active_rows)
  show "ListView_Populate api hList [packaged_row subkey 0 0] False =
     Some [[L ''Packaged'', subkey, [], L ''No'', [], []]]"
    by (simp add: ListView_Populate_eq row_item_def kind_rows text_rows active_rows
        ft_text_cases)
  show "ListView_Populate api hList [desktop_row n2 0 0] False =
     Some [[L ''Desktop'', LeafName (ReplaceAll n2 HASH BACKSLASH),
            ReplaceAll n2 HASH BACKSLASH, L ''No'', [], []]]"
    by (simp add: ListView_Populate_eq row_item_def kind_rows text_rows active_rows
        ft_text_cases)
qed

theorem timestamp_text_total_witness:
  "FtToLocalString utc_api 133540960890000000 = Some (L ''2024-03-05 07:08:09'') \<and>
   is_date_time_text (L ''2024-03-05 07:08:09'') \<and>
   FtToLocalString utc_api 0x8000000000000000 = Some [] \<and>
   FtToLocalString utc_api 0 = Some [] \<and>
   (\<exists>s. FtToLocalString utc_api 2650467744000000000 = Some s \<and> \<not> is_date_time_text s) \<and>
   length (fmt_0u 4 2024) = 4 \<and> dec_value (fmt_0u 4 2024) = 2024"
proof -
  let ?st = "\<lparr> wYear = 2024, wMonth = 3, wDayOfWeek = 2, wDay = 5, wHour = 7,
               wMinute = 8, wSecond = 9, wMilliseconds = 0 \<rparr>"
  let ?late = "\<lparr> wYear = 10000, wMonth = 1, wDayOfWeek = 6, wDay = 1, wHour = 0,
                 wMinute = 0, wSecond = 0, wMilliseconds = 0 \<rparr>"
  have ok: "(133540960890000000 :: ULONGLONG) \<noteq> 0 \<and>
    FileTimeToSystemTime utc_api
      \<lparr> dwLowDateTime = ucast ((133540960890000000 :: ULONGLONG) AND 0xFFFFFFFF),
        dwHighDateTime = ucast (drop_bit 32 (133540960890000000 :: ULONGLONG)) \<rparr> = Some ?st \<and>
    SystemTimeToTzSpecificLocalTime utc_api ?st = Some ?st"
    unfolding split_2024 by (simp add: utc_api_def conv_2024)
  have in_range: "unat (wYear ?st) < 10000 \<and> unat (wMonth ?st) < 100 \<and>
       unat (wDay ?st) < 100 \<and> unat (wHour ?st) < 100 \<and>
       unat (wMinute ?st) < 100 \<and> unat (wSecond ?st) < 100"
    by simp
  have late: "(2650467744000000000 :: ULONGLONG) \<noteq> 0 \<and>
    FileTimeToSystemTime utc_api
      \<lparr> dwLowDateTime = ucast ((2650467744000000000 :: ULONGLONG) AND 0xFFFFFFFF),
        dwHighDateTime = ucast (drop_bit 32 (2650467744000000000 :: ULONGLONG)) \<rparr>
      = Some ?late \<and>
    SystemTimeToTzSpecificLocalTime utc_api ?late = Some ?late"
    unfolding split_y10k by (simp add: utc_api_def conv_y10k)
  have late_year: "10000 \<le> unat (wYear ?late)"
    by simp
  have refused: "(0x8000000000000000 :: ULONGLONG) \<noteq> 0 \<and>
    FileTimeToSystemTime utc_api
      \<lparr> dwLowDateTime = ucast ((0x8000000000000000 :: ULONGLONG) AND 0xFFFFFFFF),
        dwHighDateTime = ucast (drop_bit 32 (0x8000000000000000 :: ULONGLONG)) \<rparr> = None"
    unfolding split_top_bit by (simp add: utc_api_def conv_top_bit)
  have width: "(0 :: nat) < 4 \<and> (2024 :: nat) < 10 ^ 4" by simp
  have printed: "fmt_0u 4 (unat (wYear ?st)) @ L ''-'' @ fmt_0u 2 (unat (wMonth ?st))
              @ L ''-'' @ fmt_0u 2 (unat (wDay ?st)) @ L '' ''
              @ fmt_0u 2 (unat (wHour ?st)) @ L '':''
              @ fmt_0u 2 (unat (wMinute ?st)) @ L '':''
              @ fmt_0u 2 (unat (wSecond ?st)) = L ''2024-03-05 07:08:09''"
    using fmt_2024 by (simp add: fmt_datetime_def)
  from timestamp_text_total [where api = utc_api and ft = 133540960890000000
      and stUtc = ?st and stLocal = ?st and width = 4 and n = 2024] ok in_range width
  have "FtToLocalString utc_api 133540960890000000 = Some (L ''2024-03-05 07:08:09'')"
    and "\<exists>s. FtToLocalString utc_api 133540960890000000 = Some s \<and> is_date_time_text s"
    and "FtToLocalString utc_api 0 = Some []"
    and "length (fmt_0u 4 2024) = 4" and "dec_value (fmt_0u 4 2024) = 2024"
    unfolding printed by blast+
  moreover from timestamp_text_total [where api = utc_api and ft = 2650467744000000000
      and stUtc = ?late and stLocal = ?late] late late_year
  have "\<exists>s. FtToLocalString utc_api 2650467744000000000 = Some s \<and> \<not> is_date_time_text s"
    by blast
  moreover from timestamp_text_total [where api = utc_api and ft = "0x8000000000000000"]
    refused
  have "FtToLocalString utc_api 0x8000000000000000 = Some []"
    by blast
  ultimately show ?thesis by auto
qed

end
